theory Spec2Isabelle
  imports Main "HOL-Library.AList"
begin

section \<open>Python values used by the server\<close>

text \<open>
  Exceptions are values. \<open>KeyError\<close>, \<open>IndexError\<close> and \<open>RecursionError\<close> are the
  three exceptions that the modelled methods can raise themselves.
\<close>

datatype error = KeyError | IndexError | RecursionError

text \<open>
  A Python \<open>dict\<close> is an association list in insertion order: \<open>k in d\<close> is
  \<open>map_of d k \<noteq> None\<close>, \<open>d[k] = v\<close> is \<open>AList.update k v d\<close> (replace in place, or
  append), \<open>d.values()\<close> is \<open>map snd d\<close>, and \<open>d.get(k, v)\<close> is \<open>dict_get d k v\<close>.
\<close>

definition dict_get :: "('k \<times> 'v) list \<Rightarrow> 'k \<Rightarrow> 'v \<Rightarrow> 'v" where
  "dict_get d k dflt = (case map_of d k of None \<Rightarrow> dflt | Some v \<Rightarrow> v)"

text \<open>
  The subscript \<open>xs[i]\<close> of a list: an index from \<open>-len(xs)\<close> to \<open>-1\<close> counts from the
  end, and an index outside \<open>-len(xs) .. len(xs) - 1\<close> raises \<open>IndexError\<close>.
\<close>

definition py_index :: "'a list \<Rightarrow> int \<Rightarrow> error + 'a" where
  "py_index xs i =
     (if 0 \<le> i \<and> i < int (length xs) then Inr (xs ! nat i)
      else if i < 0 \<and> - int (length xs) \<le> i then Inr (xs ! nat (i + int (length xs)))
      else Inl IndexError)"

text \<open>\<open>str(i)\<close> of an integer, as the f-strings of the source format it.\<close>

definition digit_char :: "nat \<Rightarrow> char" where
  "digit_char d = char_of (48 + d)"

function digits :: "nat \<Rightarrow> string" where
  "digits n = (if n < 10 then [digit_char n] else digits (n div 10) @ [digit_char (n mod 10)])"
  by pat_completeness auto
termination
  by (relation "measure (\<lambda>n. n)") auto

declare digits.simps [simp del]

definition str_int :: "int \<Rightarrow> string" where
  "str_int i = (if i < 0 then CHR ''-'' # digits (nat (- i)) else digits (nat i))"

section \<open>Score and progress management (scoring/manager.py)\<close>

record ChallengeProgress =
  challenge_id :: int
  completed :: bool
  score :: int
  attempts :: int
  hints_used :: int
  time_started :: "string option"
  time_completed :: "string option"
  best_score :: int

record UserProgress =
  username :: string
  total_score :: int
  challenges_completed :: int
  total_attempts :: int
  badges :: "string list"
  challenge_progress :: "(int \<times> ChallengeProgress) list"
  started_at :: string
  last_activity :: string

text \<open>
  The data directory holds one progress file per username. A file either parses into a
  \<open>UserProgress\<close> (\<open>Stored\<close>; \<open>save_progress\<close> followed by \<open>load_progress\<close> gives the
  record back, integer keys going through \<open>str\<close> and \<open>int\<close>), or makes the \<open>try\<close> block
  of \<open>load_progress\<close> raise (\<open>Corrupt\<close>: unreadable, invalid JSON, missing or unexpected
  fields). \<open>save_progress\<close> catches a failing write, logs it and stores nothing; the
  model describes the runs in which the progress files can be written, so that a write
  stores the record. \<open>now\<close> stands for \<open>datetime.now().isoformat()\<close> during one call.
\<close>

datatype progress_file = Corrupt | Stored UserProgress

type_synonym data_dir = "string \<rightharpoonup> progress_file"

definition new_progress :: "string \<Rightarrow> string \<Rightarrow> UserProgress" where
  "new_progress now u =
     \<lparr>username = u, total_score = 0, challenges_completed = 0, total_attempts = 0,
      badges = [], challenge_progress = [], started_at = now, last_activity = now\<rparr>"

text \<open>
  \<open>load_progress\<close> calls itself in its exception handler. The first argument is the
  number of stack frames left; a call with none left raises \<open>RecursionError\<close>, which no
  enclosing frame catches, since each recursive call is made from inside a handler.
\<close>

fun load_progress_depth :: "nat \<Rightarrow> string \<Rightarrow> data_dir \<Rightarrow> string \<Rightarrow> error + UserProgress" where
  "load_progress_depth 0 now fs u = Inl RecursionError"
| "load_progress_depth (Suc d) now fs u =
     (case fs u of
        None \<Rightarrow> Inr (new_progress now u)
      | Some (Stored p) \<Rightarrow> Inr p
      | Some Corrupt \<Rightarrow> load_progress_depth d now fs u)"

text \<open>CPython's default \<open>sys.getrecursionlimit()\<close>.\<close>

definition recursion_limit :: nat where
  "recursion_limit = 1000"

definition load_progress :: "string \<Rightarrow> data_dir \<Rightarrow> string \<Rightarrow> error + UserProgress" where
  "load_progress now fs u = load_progress_depth recursion_limit now fs u"

definition save_progress :: "data_dir \<Rightarrow> UserProgress \<Rightarrow> data_dir" where
  "save_progress fs progress = fs(username progress \<mapsto> Stored progress)"

text \<open>
  Every method returns the data directory it leaves behind together with its outcome:
  an exception leaves the files as they were when it was raised.
\<close>

definition start_challenge :: "string \<Rightarrow> data_dir \<Rightarrow> string \<Rightarrow> int \<Rightarrow> data_dir \<times> (error + unit)" where
  "start_challenge now fs u cid =
     (case load_progress now fs u of
        Inl e \<Rightarrow> (fs, Inl e)
      | Inr progress \<Rightarrow>
          let progress1 =
                (if map_of (challenge_progress progress) cid = None
                 then progress\<lparr>challenge_progress :=
                        AList.update cid
                          \<lparr>challenge_id = cid, completed = False, score = 0, attempts = 0,
                           hints_used = 0, time_started = Some now, time_completed = None,
                           best_score = 0\<rparr>
                          (challenge_progress progress)\<rparr>
                 else progress);
              progress2 = progress1\<lparr>last_activity := now\<rparr>
          in (save_progress fs progress2, Inr ()))"

definition record_attempt :: "string \<Rightarrow> data_dir \<Rightarrow> string \<Rightarrow> int \<Rightarrow> data_dir \<times> (error + unit)" where
  "record_attempt now fs u cid =
     (case load_progress now fs u of
        Inl e \<Rightarrow> (fs, Inl e)
      | Inr progress \<Rightarrow>
          let progress1 =
                (case map_of (challenge_progress progress) cid of
                   None \<Rightarrow> progress
                 | Some cp \<Rightarrow>
                     progress\<lparr>challenge_progress :=
                                AList.update cid (cp\<lparr>attempts := attempts cp + 1\<rparr>)
                                  (challenge_progress progress),
                              total_attempts := total_attempts progress + 1\<rparr>);
              progress2 = progress1\<lparr>last_activity := now\<rparr>
          in (save_progress fs progress2, Inr ()))"

definition use_hint :: "string \<Rightarrow> data_dir \<Rightarrow> string \<Rightarrow> int \<Rightarrow> int \<Rightarrow> data_dir \<times> (error + string)" where
  "use_hint now fs u cid hint_level =
     (case load_progress now fs u of
        Inl e \<Rightarrow> (fs, Inl e)
      | Inr progress \<Rightarrow>
          let progress1 =
                (case map_of (challenge_progress progress) cid of
                   None \<Rightarrow> progress
                 | Some cp \<Rightarrow>
                     progress\<lparr>challenge_progress :=
                                AList.update cid (cp\<lparr>hints_used := hints_used cp + 1\<rparr>)
                                  (challenge_progress progress)\<rparr>);
              progress2 = progress1\<lparr>last_activity := now\<rparr>
          in (save_progress fs progress2,
              Inr (''Hint '' @ str_int hint_level @ '' revealed! (Cost applied to final score)'')))"

text \<open>\<open>_check_badges\<close>: the six rules, appended in the order of the source.\<close>

definition check_badges :: "UserProgress \<Rightarrow> string list" where
  "check_badges progress =
     (let vals = map snd (challenge_progress progress);
          n = challenges_completed progress;
          owned = set (badges progress);
          first_blood =
            (if n = 1 \<and> ''first_blood'' \<notin> owned then [''first_blood''] else []);
          no_hints = list_all (\<lambda>cp. hints_used cp = 0) (filter completed vals);
          no_hints_hero =
            (if no_hints \<and> n \<ge> 3 \<and> ''no_hints_hero'' \<notin> owned then [''no_hints_hero''] else []);
          speed = list_ex (\<lambda>cp. completed cp \<and> attempts cp \<le> 5) vals;
          speed_demon =
            (if speed \<and> ''speed_demon'' \<notin> owned then [''speed_demon''] else []);
          halfway =
            (if n \<ge> 4 \<and> ''halfway'' \<notin> owned then [''halfway''] else []);
          champion =
            (if n = 8 \<and> ''champion'' \<notin> owned then [''champion''] else []);
          perfect = list_all (\<lambda>cp. score cp = best_score cp) (filter completed vals);
          perfect_score =
            (if perfect \<and> n \<ge> 5 \<and> ''perfect_score'' \<notin> owned then [''perfect_score''] else [])
      in first_blood @ no_hints_hero @ speed_demon @ halfway @ champion @ perfect_score)"

text \<open>The dictionary that \<open>complete_challenge\<close> returns.\<close>

record completion =
  result_score :: int
  result_total_score :: int
  result_new_badges :: "string list"
  result_challenges_completed :: int

text \<open>
  \<open>complete_challenge\<close> loads the record first and lets \<open>start_challenge\<close> work on a
  copy of its own, loaded from the file and saved back: the entry that
  \<open>start_challenge\<close> adds is in the file, not in \<open>progress\<close>, so the subscript that
  follows raises \<open>KeyError\<close>. \<open>cprog\<close> is an object inside \<open>progress\<close>: the model
  writes the changed entry back at its key. \<open>list(set(...))\<close> on the badges is
  \<open>remdups\<close>; Python leaves the resulting order open.
\<close>

definition complete_challenge ::
    "string \<Rightarrow> data_dir \<Rightarrow> string \<Rightarrow> int \<Rightarrow> int \<Rightarrow> data_dir \<times> (error + completion)" where
  "complete_challenge now fs u cid s =
     (case load_progress now fs u of
        Inl e \<Rightarrow> (fs, Inl e)
      | Inr progress \<Rightarrow>
          let (fs1, started) =
                (if map_of (challenge_progress progress) cid = None
                 then start_challenge now fs u cid
                 else (fs, Inr ()))
          in (case started of
               Inl e \<Rightarrow> (fs1, Inl e)
             | Inr _ \<Rightarrow>
                 (case map_of (challenge_progress progress) cid of
                    None \<Rightarrow> (fs1, Inl KeyError)
                  | Some cprog \<Rightarrow>
                      let progress1 =
                            (if \<not> completed cprog \<or> s > best_score cprog then
                               let (n, cprog1) =
                                     (if \<not> completed cprog
                                      then (challenges_completed progress + 1,
                                            cprog\<lparr>completed := True, time_completed := Some now\<rparr>)
                                      else (challenges_completed progress, cprog));
                                   old_score = score cprog1;
                                   cprog2 = cprog1\<lparr>score := s,
                                                   best_score := max (best_score cprog1) s\<rparr>
                               in progress\<lparr>challenges_completed := n,
                                           challenge_progress :=
                                             AList.update cid cprog2 (challenge_progress progress),
                                           total_score := total_score progress + (s - old_score)\<rparr>
                             else progress);
                          new_badges = check_badges progress1;
                          progress2 = progress1\<lparr>badges := remdups (badges progress1 @ new_badges),
                                                 last_activity := now\<rparr>
                      in (save_progress fs1 progress2,
                          Inr \<lparr>result_score = s,
                               result_total_score = total_score progress2,
                               result_new_badges = new_badges,
                               result_challenges_completed = challenges_completed progress2\<rparr>))))"

text \<open>
  A run of the progress store: each call is made at its own time, and the data directory
  a call leaves behind (also when it raises) is the one the next call finds.
\<close>

datatype operation =
    Start_unit string int
  | Record_attempt string int
  | Use_hint string int int
  | Complete_unit string int int

fun apply_operation :: "string \<Rightarrow> data_dir \<Rightarrow> operation \<Rightarrow> data_dir" where
  "apply_operation now fs (Start_unit u cid) = fst (start_challenge now fs u cid)"
| "apply_operation now fs (Record_attempt u cid) = fst (record_attempt now fs u cid)"
| "apply_operation now fs (Use_hint u cid lvl) = fst (use_hint now fs u cid lvl)"
| "apply_operation now fs (Complete_unit u cid s) = fst (complete_challenge now fs u cid s)"

fun run_operations :: "data_dir \<Rightarrow> (string \<times> operation) list \<Rightarrow> data_dir" where
  "run_operations fs [] = fs"
| "run_operations fs ((now, operation) # rest) =
     run_operations (apply_operation now fs operation) rest"

fun nonnegative_score :: "operation \<Rightarrow> bool" where
  "nonnegative_score (Complete_unit u cid s) = (0 \<le> s)"
| "nonnegative_score _ = True"

text \<open>The scores of the completed entries of a record, in the order of the dictionary.\<close>

definition completed_scores :: "UserProgress \<Rightarrow> int list" where
  "completed_scores p = map score (filter completed (map snd (challenge_progress p)))"

definition completed_best_scores :: "UserProgress \<Rightarrow> int list" where
  "completed_best_scores p = map best_score (filter completed (map snd (challenge_progress p)))"

text \<open>
  Invariant of the records that the four operations write: an entry's score is its
  best score, an entry not yet completed has score 0, and the total is the sum of the
  completed entries' scores.
\<close>

definition entry_ok :: "ChallengeProgress \<Rightarrow> bool" where
  "entry_ok cp \<longleftrightarrow> score cp = best_score cp \<and> (\<not> completed cp \<longrightarrow> score cp = 0)"

definition progress_ok :: "UserProgress \<Rightarrow> bool" where
  "progress_ok p \<longleftrightarrow>
     list_all entry_ok (map snd (challenge_progress p)) \<and>
     total_score p = sum_list (completed_scores p)"

definition dir_ok :: "data_dir \<Rightarrow> bool" where
  "dir_ok fs \<longleftrightarrow> (\<forall>u p. fs u = Some (Stored p) \<longrightarrow> progress_ok p)"

section \<open>Challenges (challenges/base.py)\<close>

datatype Difficulty = BEGINNER | INTERMEDIATE | ADVANCED | EXPERT

record Hint =
  level :: int
  hint_text :: string
  points_cost :: int

record ChallengeInfo =
  info_id :: int
  info_name :: string
  title :: string
  info_description :: string
  difficulty :: Difficulty
  points :: int
  flag :: string
  category :: string
  tags :: "string list"
  hints :: "Hint list"

text \<open>A tool and a resource as \<open>get_tools\<close> and \<open>get_resources\<close> declare them.\<close>

record Tool =
  name :: string
  description :: string
  inputSchema :: string

record Resource =
  uri :: string
  resource_name :: string
  resource_description :: string
  mimeType :: string

text \<open>
  A challenge object: the fields of \<open>BaseChallenge\<close>, and what the abstract methods of
  its subclass return. \<open>handle_resource_read\<close> gives \<open>Inr\<close> the content, or \<open>Inl m\<close>
  when it raises an exception \<open>e\<close> with \<open>str(e) = m\<close>.
\<close>

record Challenge =
  info :: ChallengeInfo
  self_attempts :: int
  self_hints_used :: int
  get_tools :: "Tool list"
  get_resources :: "Resource list"
  handle_resource_read :: "string \<Rightarrow> string + string"

definition get_hint :: "Challenge \<Rightarrow> int \<Rightarrow> Challenge \<times> (error + Hint option)" where
  "get_hint self lvl =
     (if lvl \<le> int (length (hints (info self))) then
        let self1 = self\<lparr>self_hints_used := self_hints_used self + 1\<rparr>
        in (self1, case py_index (hints (info self)) (lvl - 1) of
                     Inl e \<Rightarrow> Inl e
                   | Inr h \<Rightarrow> Inr (Some h))
      else (self, Inr None))"

definition calculate_score :: "Challenge \<Rightarrow> int \<Rightarrow> int" where
  "calculate_score self base_points =
     (let penalty = self_attempts self * 5 + self_hints_used self * 10
      in max (base_points - penalty) (base_points div 4))"

section \<open>The server (server.py)\<close>

subsection \<open>Tool registry\<close>

record Registry =
  tool_registry :: "(string \<times> int \<times> string) list"
  unique_tool_registry :: "(string \<times> int \<times> string) list"
  namespaced_tools :: "Tool list"

text \<open>The f-string \<open>lvl{cid}__{t.name}\<close>.\<close>

definition ns_name :: "int \<Rightarrow> string \<Rightarrow> string" where
  "ns_name cid n = ''lvl'' @ str_int cid @ ''__'' @ n"

text \<open>The first loop: \<open>name_counts\<close> and \<open>per_challenge_tools\<close>.\<close>

definition count_names :: "Tool list \<Rightarrow> (string \<times> int) list \<Rightarrow> (string \<times> int) list" where
  "count_names tools name_counts =
     fold (\<lambda>t nc. AList.update (name t) (dict_get nc (name t) 0 + 1) nc) tools name_counts"

definition gather_tools ::
    "(int \<times> Challenge) list \<Rightarrow> (string \<times> int) list \<times> (int \<times> Tool list) list" where
  "gather_tools challenges =
     fold (\<lambda>(cid, challenge) (name_counts, per_challenge_tools).
             let tools = get_tools challenge
             in (count_names tools name_counts, AList.update cid tools per_challenge_tools))
          challenges ([], [])"

text \<open>The body of the second loop, for one tool of one challenge.\<close>

definition register_tool :: "(string \<times> int) list \<Rightarrow> int \<Rightarrow> Tool \<Rightarrow> Registry \<Rightarrow> Registry" where
  "register_tool name_counts cid t reg =
     (let n = ns_name cid (name t)
      in reg\<lparr>tool_registry := AList.update n (cid, name t) (tool_registry reg),
              namespaced_tools :=
                namespaced_tools reg @
                  [\<lparr>name = n, description = description t, inputSchema = inputSchema t\<rparr>],
              unique_tool_registry :=
                (if dict_get name_counts (name t) 0 = 1
                 then AList.update (name t) (cid, name t) (unique_tool_registry reg)
                 else unique_tool_registry reg)\<rparr>)"

definition register_tools ::
    "(string \<times> int) list \<Rightarrow> (int \<times> Tool list) list \<Rightarrow> Registry \<Rightarrow> Registry" where
  "register_tools name_counts per_challenge_tools reg =
     fold (\<lambda>(cid, tools) reg. fold (register_tool name_counts cid) tools reg)
          per_challenge_tools reg"

text \<open>
  \<open>_build_tool_registry\<close>, from the three empty tables that \<open>__init__\<close> sets up. No
  statement of the method raises, so the outcome is always a registry.
\<close>

definition build_tool_registry :: "(int \<times> Challenge) list \<Rightarrow> error + Registry" where
  "build_tool_registry challenges =
     (let (name_counts, per_challenge_tools) = gather_tools challenges
      in Inr (register_tools name_counts per_challenge_tools
                \<lparr>tool_registry = [], unique_tool_registry = [], namespaced_tools = []\<rparr>))"

text \<open>How many declarations of a bare name there are over all challenges.\<close>

definition all_tools :: "(int \<times> Challenge) list \<Rightarrow> Tool list" where
  "all_tools challenges = concat (map (\<lambda>(cid, challenge). get_tools challenge) challenges)"

definition occurrences :: "string \<Rightarrow> (int \<times> Challenge) list \<Rightarrow> nat" where
  "occurrences n challenges = length (filter (\<lambda>t. name t = n) (all_tools challenges))"

subsection \<open>Resource owner map and resource reads\<close>

text \<open>
  \<open>urlparse\<close> is library code: the functions below take it as the parameter \<open>parse\<close>,
  which gives the pair \<open>(p.scheme, p.netloc)\<close> of an address. \<open>uri_key\<close> is such a
  parser for addresses written \<open>scheme://authority/path\<close>.
\<close>

definition uri_key :: "string \<Rightarrow> string \<times> string" where
  "uri_key s =
     (let scheme = takeWhile (\<lambda>c. c \<noteq> CHR '':'') s;
          rest = drop (length scheme) s
      in if rest = [] then ([], [])
         else if take 3 rest = ''://''
         then (scheme, takeWhile (\<lambda>c. c \<notin> {CHR ''/'', CHR ''?'', CHR ''#''}) (drop 3 rest))
         else (scheme, []))"

type_synonym owner_map = "((string \<times> string) \<times> int option) list"

definition declare_resource :: "(string \<Rightarrow> string \<times> string) \<Rightarrow> int \<Rightarrow> Resource \<Rightarrow> owner_map \<Rightarrow> owner_map" where
  "declare_resource parse cid r resource_owner =
     (let key = parse (uri r)
      in if map_of resource_owner key \<noteq> None \<and> map_of resource_owner key \<noteq> Some (Some cid)
         then AList.update key None resource_owner
         else AList.update key (Some cid) resource_owner)"

definition build_resource_owner_map ::
    "(string \<Rightarrow> string \<times> string) \<Rightarrow> (int \<times> Challenge) list \<Rightarrow> owner_map" where
  "build_resource_owner_map parse challenges =
     (let resource_owner =
            fold (\<lambda>(cid, challenge) resource_owner.
                    fold (declare_resource parse cid) (get_resources challenge) resource_owner)
                 challenges []
      in AList.update (''vulnmcp'', ''docs'') (Some 2) resource_owner)"

text \<open>The two marks of the replies, in UTF-8.\<close>

definition cross_mark :: string where
  "cross_mark = [CHR 0xE2, CHR 0x9D, CHR 0x8C]"

definition light_bulb :: string where
  "light_bulb = [CHR 0xF0, CHR 0x9F, CHR 0x92, CHR 0xA1]"

definition get_welcome_text :: string where
  "get_welcome_text =
     ''Welcome to VulnMCP! Use vulnmcp_help(action='' @ [CHR 0x27] @ ''challenges'' @ [CHR 0x27]
       @ '') to start.''"

definition not_found :: "string \<Rightarrow> string" where
  "not_found uri_str = cross_mark @ '' Resource not found: '' @ uri_str"

definition error_reading :: "string \<Rightarrow> string" where
  "error_reading m = cross_mark @ '' Error reading resource: '' @ m"

text \<open>
  \<open>read_resource\<close>: the welcome address, then the first challenge in registration
  order that declares the address, then the owner of its (scheme, netloc); the
  \<open>except\<close> clause turns every exception into a reply. \<open>self.challenges[owner]\<close>
  raises \<open>KeyError(owner)\<close>, whose \<open>str\<close> is the number.
\<close>

definition declares :: "string \<Rightarrow> int \<times> Challenge \<Rightarrow> bool" where
  "declares uri_str c = (uri_str \<in> set (map uri (get_resources (snd c))))"

definition read_resource ::
    "(string \<Rightarrow> string \<times> string) \<Rightarrow> (int \<times> Challenge) list \<Rightarrow> owner_map \<Rightarrow> string \<Rightarrow> string" where
  "read_resource parse challenges resource_owner uri_str =
     (case (if uri_str = ''vulnmcp://welcome'' then Inr get_welcome_text
            else case find (declares uri_str) challenges of
                   Some (cid, challenge) \<Rightarrow> handle_resource_read challenge uri_str
                 | None \<Rightarrow>
                     (case dict_get resource_owner (parse uri_str) None of
                        Some owner \<Rightarrow>
                          (case map_of challenges owner of
                             Some challenge \<Rightarrow> handle_resource_read challenge uri_str
                           | None \<Rightarrow> Inl (str_int owner))
                      | None \<Rightarrow> Inr (not_found uri_str)))
      of Inr content \<Rightarrow> content
       | Inl m \<Rightarrow> error_reading m)"

subsection \<open>Hints\<close>

record TextContent =
  content_type :: string
  content_text :: string

definition text_reply :: "string \<Rightarrow> TextContent list" where
  "text_reply s = [\<lparr>content_type = ''text'', content_text = s\<rparr>]"

definition invalid_hint_level :: "int \<Rightarrow> TextContent list" where
  "invalid_hint_level lvl = text_reply (cross_mark @ '' Invalid hint level: '' @ str_int lvl)"

text \<open>
  \<open>_get_hint\<close>: the state is the challenge objects and the data directory. A \<open>Hint\<close>
  object is always true in \<open>if not hint\<close>, so only \<open>None\<close> is reported as an invalid
  level.
\<close>

definition server_get_hint ::
    "string \<Rightarrow> (int \<times> Challenge) list \<Rightarrow> data_dir \<Rightarrow> int \<Rightarrow> int
      \<Rightarrow> ((int \<times> Challenge) list \<times> data_dir) \<times> (error + TextContent list)" where
  "server_get_hint now challenges fs cid lvl =
     (case map_of challenges cid of
        None \<Rightarrow>
          ((challenges, fs),
           Inr (text_reply (cross_mark @ '' Invalid challenge ID: '' @ str_int cid)))
      | Some challenge \<Rightarrow>
          let (challenge1, got) = get_hint challenge lvl;
              challenges1 = AList.update cid challenge1 challenges
          in (case got of
                Inl e \<Rightarrow> ((challenges1, fs), Inl e)
              | Inr None \<Rightarrow> ((challenges1, fs), Inr (invalid_hint_level lvl))
              | Inr (Some hint) \<Rightarrow>
                  (case use_hint now fs ''player'' cid lvl of
                     (fs1, Inl e) \<Rightarrow> ((challenges1, fs1), Inl e)
                   | (fs1, Inr _) \<Rightarrow>
                       ((challenges1, fs1),
                        Inr (text_reply (light_bulb @ '' HINT L'' @ str_int cid @ ''.''
                               @ str_int lvl @ [CHR 0x0A, CHR 0x0A] @ hint_text hint))))))"

section \<open>Auxiliary notions\<close>

text \<open>
  The two loops of \<open>_build_tool_registry\<close> seen as one pass over the list of declared
  (challenge id, tool) pairs.
\<close>

definition declared_tools :: "(int \<times> Challenge) list \<Rightarrow> (int \<times> Tool list) list" where
  "declared_tools challenges = map (\<lambda>(cid, challenge). (cid, get_tools challenge)) challenges"

definition tool_pairs :: "(int \<times> Tool list) list \<Rightarrow> (int \<times> Tool) list" where
  "tool_pairs pct = concat (map (\<lambda>(cid, tools). map (Pair cid) tools) pct)"

definition ns_tool :: "int \<times> Tool \<Rightarrow> Tool" where
  "ns_tool ct = \<lparr>name = ns_name (fst ct) (name (snd ct)), description = description (snd ct),
                 inputSchema = inputSchema (snd ct)\<rparr>"

definition register_pairs :: "(string \<times> int) list \<Rightarrow> (int \<times> Tool) list \<Rightarrow> Registry \<Rightarrow> Registry" where
  "register_pairs nc xs reg = fold (\<lambda>(cid, t). register_tool nc cid t) xs reg"

definition empty_registry :: Registry where
  "empty_registry = \<lparr>tool_registry = [], unique_tool_registry = [], namespaced_tools = []\<rparr>"

definition declared_pairs :: "(int \<times> Challenge) list \<Rightarrow> (int \<times> Tool) list" where
  "declared_pairs challenges = tool_pairs (declared_tools challenges)"

definition ns_key :: "int \<times> Tool \<Rightarrow> string" where
  "ns_key ct = ns_name (fst ct) (name (snd ct))"

text \<open>The two loops of \<open>_build_resource_owner_map\<close> as one pass over the declared resources.\<close>

definition resource_pairs :: "(int \<times> Challenge) list \<Rightarrow> (int \<times> Resource) list" where
  "resource_pairs challenges =
     concat (map (\<lambda>(cid, challenge). map (Pair cid) (get_resources challenge)) challenges)"

definition declare_pairs ::
    "(string \<Rightarrow> string \<times> string) \<Rightarrow> (int \<times> Resource) list \<Rightarrow> owner_map \<Rightarrow> owner_map" where
  "declare_pairs parse xs resource_owner =
     fold (\<lambda>(cid, r). declare_resource parse cid r) xs resource_owner"

section \<open>Example inputs\<close>

text \<open>Challenges for the examples: a handler echoes its tag and the address.\<close>

definition example_tool :: "string \<Rightarrow> Tool" where
  "example_tool n = \<lparr>name = n, description = ''a tool'', inputSchema = ''{}''\<rparr>"

definition example_resource :: "string \<Rightarrow> Resource" where
  "example_resource a =
     \<lparr>uri = a, resource_name = ''a resource'', resource_description = ''a resource'',
      mimeType = ''text/plain''\<rparr>"

definition example_info :: "Hint list \<Rightarrow> ChallengeInfo" where
  "example_info hs =
     \<lparr>info_id = 1, info_name = ''example'', title = ''Example'', info_description = ''an example'',
      difficulty = BEGINNER, points = 100, flag = ''FLAG{example}'', category = ''examples'',
      tags = [], hints = hs\<rparr>"

definition example_challenge :: "string \<Rightarrow> string list \<Rightarrow> string list \<Rightarrow> Challenge" where
  "example_challenge tag tool_names addresses =
     \<lparr>info = example_info [], self_attempts = 0, self_hints_used = 0,
      get_tools = map example_tool tool_names,
      get_resources = map example_resource addresses,
      handle_resource_read = (\<lambda>a. Inr (tag @ a))\<rparr>"

definition two_levels :: "(int \<times> Challenge) list" where
  "two_levels =
     [(1, example_challenge ''A:'' [''check'', ''scan''] []),
      (2, example_challenge ''B:'' [''check'', ''read''] [])]"

definition duplicate_level :: "(int \<times> Challenge) list" where
  "duplicate_level = [(1, example_challenge ''A:'' [''check'', ''check''] [])]"

definition empty_dir :: data_dir where
  "empty_dir = Map.empty"

text \<open>A player who completed unit 3 with score 100 before.\<close>

definition veteran_entry :: ChallengeProgress where
  "veteran_entry =
     \<lparr>challenge_id = 3, completed = True, score = 100, attempts = 0, hints_used = 0,
      time_started = Some ''t0'', time_completed = Some ''t1'', best_score = 100\<rparr>"

definition veteran :: UserProgress where
  "veteran =
     \<lparr>username = ''player'', total_score = 100, challenges_completed = 1, total_attempts = 0,
      badges = [''first_blood'', ''speed_demon''], challenge_progress = [(3, veteran_entry)],
      started_at = ''t0'', last_activity = ''t1''\<rparr>"

definition veteran_dir :: data_dir where
  "veteran_dir = [''player'' \<mapsto> Stored veteran]"

definition corrupt_dir :: data_dir where
  "corrupt_dir = [''player'' \<mapsto> Corrupt]"

text \<open>
  The record of a player who started unit 3 at time \<open>before\<close>, and the same record
  once unit 3 is completed with 200 at time \<open>now\<close>, last touched at time \<open>touched\<close>.
\<close>

definition unit_3_started :: "string \<Rightarrow> string \<Rightarrow> UserProgress" where
  "unit_3_started u before =
     \<lparr>username = u, total_score = 0, challenges_completed = 0, total_attempts = 0,
      badges = [],
      challenge_progress =
        [(3, \<lparr>challenge_id = 3, completed = False, score = 0, attempts = 0,
              hints_used = 0, time_started = Some before, time_completed = None,
              best_score = 0\<rparr>)],
      started_at = before, last_activity = before\<rparr>"

definition unit_3_completed :: "string \<Rightarrow> string \<Rightarrow> string \<Rightarrow> string \<Rightarrow> UserProgress" where
  "unit_3_completed u before now touched =
     \<lparr>username = u, total_score = 200, challenges_completed = 1, total_attempts = 0,
      badges = [''first_blood'', ''speed_demon''],
      challenge_progress =
        [(3, \<lparr>challenge_id = 3, completed = True, score = 200, attempts = 0,
              hints_used = 0, time_started = Some before, time_completed = Some now,
              best_score = 200\<rparr>)],
      started_at = before, last_activity = touched\<rparr>"

definition unit_3_run :: "(string \<times> operation) list" where
  "unit_3_run =
     [(''t0'', Start_unit ''player'' 3),
      (''t1'', Complete_unit ''player'' 3 200),
      (''t2'', Complete_unit ''player'' 3 150)]"

definition shared_levels :: "(int \<times> Challenge) list" where
  "shared_levels =
     [(3, example_challenge ''A:'' [] [''vulnmcp://files/a'']),
      (5, example_challenge ''B:'' [] [''vulnmcp://files/b''])]"

definition docs_levels :: "(int \<times> Challenge) list" where
  "docs_levels =
     [(2, example_challenge ''A:'' [] [''vulnmcp://docs/public/welcome'']),
      (8, example_challenge ''B:'' [] [''vulnmcp://docs/other''])]"

text \<open>A challenge with two hints.\<close>

definition hinted_challenge :: Challenge where
  "hinted_challenge =
     (example_challenge ''A:'' [] [])
       \<lparr>info := example_info
          [\<lparr>level = 1, hint_text = ''look closer'', points_cost = 10\<rparr>,
           \<lparr>level = 2, hint_text = ''read the source'', points_cost = 20\<rparr>]\<rparr>"

section \<open>Properties of the progress store\<close>

subsection \<open>Loading\<close>

lemma load_progress_depth_Corrupt:
  "fs u = Some Corrupt \<Longrightarrow> load_progress_depth d now fs u = Inl RecursionError"
  by (induction d) simp_all

lemma recursion_limit_Suc: "recursion_limit = Suc 999"
  by (simp add: recursion_limit_def)

lemma load_progress_Corrupt:
  "fs u = Some Corrupt \<Longrightarrow> load_progress now fs u = Inl RecursionError"
  by (simp add: load_progress_def load_progress_depth_Corrupt)

lemma load_progress_Stored:
  "fs u = Some (Stored p) \<Longrightarrow> load_progress now fs u = Inr p"
  unfolding load_progress_def recursion_limit_Suc load_progress_depth.simps by simp

lemma load_progress_None:
  "fs u = None \<Longrightarrow> load_progress now fs u = Inr (new_progress now u)"
  unfolding load_progress_def recursion_limit_Suc load_progress_depth.simps by simp

text \<open>
  C2. A progress file that exists but cannot be read is never replaced by a fresh
  record: the handler of \<open>load_progress\<close> calls \<open>load_progress\<close> again on the same
  file, whatever the stack depth, and the caller gets \<open>RecursionError\<close>.
\<close>

theorem load_progress_corrupt_raises:
  assumes "fs u = Some Corrupt"
  shows "load_progress now fs u = Inl RecursionError
       \<and> load_progress_depth d now fs u = Inl RecursionError
       \<and> load_progress now fs u \<noteq> Inr (new_progress now u)"
  using assms by (simp add: load_progress_def load_progress_depth_Corrupt)

theorem load_progress_corrupt_raises_witness:
  "corrupt_dir ''player'' = Some Corrupt
   \<and> load_progress ''t'' corrupt_dir ''player'' = Inl RecursionError
   \<and> load_progress_depth 5 ''t'' corrupt_dir ''player'' = Inl RecursionError
   \<and> load_progress ''t'' corrupt_dir ''player'' \<noteq> Inr (new_progress ''t'' ''player'')"
proof -
  have h: "corrupt_dir ''player'' = Some Corrupt" by (simp add: corrupt_dir_def)
  show ?thesis
    using h load_progress_corrupt_raises
            [where fs = corrupt_dir and u = "''player''" and now = "''t''" and d = 5]
    by simp
qed

subsection \<open>Completing a unit that has an entry\<close>

lemma complete_challenge_existing:
  assumes "fs u = Some (Stored p)"
    and "map_of (challenge_progress p) cid = Some cp"
  shows "complete_challenge now fs u cid s =
     (let p1 = (if \<not> completed cp \<or> best_score cp < s then
                 p\<lparr>challenges_completed :=
                      (if completed cp then challenges_completed p else challenges_completed p + 1),
                    challenge_progress :=
                      AList.update cid
                        ((if completed cp then cp
                          else cp\<lparr>completed := True, time_completed := Some now\<rparr>)
                           \<lparr>score := s, best_score := max (best_score cp) s\<rparr>)
                        (challenge_progress p),
                    total_score := total_score p + (s - score cp)\<rparr>
               else p);
          p2 = p1\<lparr>badges := remdups (badges p1 @ check_badges p1), last_activity := now\<rparr>
      in (fs(username p \<mapsto> Stored p2),
          Inr \<lparr>result_score = s, result_total_score = total_score p1,
               result_new_badges = check_badges p1,
               result_challenges_completed = challenges_completed p1\<rparr>))"
  using assms
  by (simp add: complete_challenge_def load_progress_Stored Let_def save_progress_def)

text \<open>
  C7. A unit already completed with stored score \<open>score cp\<close>, completed again with a
  score above its best score: the call returns, and the total (returned and stored)
  grows by the new score minus the stored score.
\<close>

theorem complete_challenge_higher_score_delta:
  assumes "fs u = Some (Stored p)"
    and "map_of (challenge_progress p) cid = Some cp"
    and "completed cp" and "best_score cp < s"
  shows "\<exists>fs' r p'. complete_challenge now fs u cid s = (fs', Inr r)
           \<and> result_total_score r = total_score p + (s - score cp)
           \<and> fs' (username p) = Some (Stored p')
           \<and> total_score p' = total_score p + (s - score cp)
           \<and> map_of (challenge_progress p') cid = Some (cp\<lparr>score := s, best_score := s\<rparr>)"
  using assms
  by (simp add: complete_challenge_def load_progress_Stored Let_def save_progress_def
      AList.update_conv' max_def)

theorem complete_challenge_higher_score_delta_witness:
  "veteran_dir ''player'' = Some (Stored veteran)
   \<and> map_of (challenge_progress veteran) 3 = Some veteran_entry
   \<and> completed veteran_entry \<and> best_score veteran_entry < 115
   \<and> (\<exists>fs' r p'. complete_challenge ''t2'' veteran_dir ''player'' 3 115 = (fs', Inr r)
           \<and> result_total_score r = 115
           \<and> fs' ''player'' = Some (Stored p')
           \<and> total_score p' = 115
           \<and> map_of (challenge_progress p') 3
               = Some (veteran_entry\<lparr>score := 115, best_score := 115\<rparr>))"
proof -
  have h1: "veteran_dir ''player'' = Some (Stored veteran)" by (simp add: veteran_dir_def)
  have h2: "map_of (challenge_progress veteran) 3 = Some veteran_entry"
    by (simp add: veteran_def)
  have h3: "completed veteran_entry" by (simp add: veteran_entry_def)
  have h4: "best_score veteran_entry < 115" by (simp add: veteran_entry_def)
  have v: "total_score veteran = 100" "score veteran_entry = 100" "username veteran = ''player''"
    by (simp_all add: veteran_def veteran_entry_def)
  show ?thesis
    using h1 h2 h3 h4 complete_challenge_higher_score_delta
            [where fs = veteran_dir and u = "''player''" and p = veteran and cid = 3
               and cp = veteran_entry and s = 115 and now = "''t2''"]
    by (simp add: v)
qed

text \<open>
  C6, as stated, fails: the veteran's best score for unit 3 is 100; submitting 80 and
  then 60 leaves it at 100, not at 80 (nothing is stored but the time of the call).
\<close>

theorem complete_twice_best_score_counterexample:
  "snd (complete_challenge ''t2'' veteran_dir ''player'' 3 80)
     = Inr \<lparr>result_score = 80, result_total_score = 100, result_new_badges = [],
            result_challenges_completed = 1\<rparr>
   \<and> fst (complete_challenge ''t3''
            (fst (complete_challenge ''t2'' veteran_dir ''player'' 3 80)) ''player'' 3 60)
         ''player''
     = Some (Stored (veteran\<lparr>last_activity := ''t3''\<rparr>))
   \<and> map_of (challenge_progress (veteran\<lparr>last_activity := ''t3''\<rparr>)) 3 = Some veteran_entry
   \<and> best_score veteran_entry = 100
   \<and> best_score veteran_entry \<noteq> 80"
proof -
  have h1: "veteran_dir ''player'' = Some (Stored veteran)" by (simp add: veteran_dir_def)
  have h2: "map_of (challenge_progress veteran) 3 = Some veteran_entry"
    by (simp add: veteran_def)
  have b: "check_badges veteran = []"
    by (simp add: check_badges_def veteran_def veteran_entry_def)
  have v: "completed veteran_entry" "best_score veteran_entry = 100"
    "username veteran = ''player''" "total_score veteran = 100"
    "challenges_completed veteran = 1" "badges veteran = [''first_blood'', ''speed_demon'']"
    by (simp_all add: veteran_def veteran_entry_def)
  have bb: "veteran\<lparr>badges := [''first_blood'', ''speed_demon'']\<rparr> = veteran"
    by (simp add: veteran_def)
  have c1: "complete_challenge ''t2'' veteran_dir ''player'' 3 80 =
      (veteran_dir(''player'' \<mapsto> Stored (veteran\<lparr>last_activity := ''t2''\<rparr>)),
       Inr \<lparr>result_score = 80, result_total_score = 100, result_new_badges = [],
            result_challenges_completed = 1\<rparr>)"
    by (simp add: complete_challenge_existing [where p = veteran and cp = veteran_entry] h1 h2 v b bb)
  have h1': "(veteran_dir(''player'' \<mapsto> Stored (veteran\<lparr>last_activity := ''t2''\<rparr>))) ''player''
      = Some (Stored (veteran\<lparr>last_activity := ''t2''\<rparr>))" by simp
  have h2': "map_of (challenge_progress (veteran\<lparr>last_activity := ''t2''\<rparr>)) 3 = Some veteran_entry"
    by (simp add: veteran_def)
  have b': "check_badges (veteran\<lparr>last_activity := ''t2''\<rparr>) = []"
    by (simp add: check_badges_def veteran_def veteran_entry_def)
  have c2: "fst (complete_challenge ''t3''
        (veteran_dir(''player'' \<mapsto> Stored (veteran\<lparr>last_activity := ''t2''\<rparr>))) ''player'' 3 60)
        ''player'' = Some (Stored (veteran\<lparr>last_activity := ''t3''\<rparr>))"
  proof -
    note complete_challenge_existing
           [where fs = "veteran_dir(''player'' \<mapsto> Stored (veteran\<lparr>last_activity := ''t2''\<rparr>))"
              and u = "''player''" and p = "veteran\<lparr>last_activity := ''t2''\<rparr>"
              and cp = veteran_entry and cid = 3 and s = 60 and now = "''t3''", OF h1' h2']
    then show ?thesis by (simp add: v b' bb)
  qed
  show ?thesis
    by (simp add: c1 c2 h2 v)
qed

text \<open>
  C6, amended. For a readable record filed under its own name that has an entry for the
  unit: completing with \<open>s1\<close> and then with \<open>s2 \<le> s1\<close>, both calls return; after the
  first the best score is the larger of the earlier best score and \<open>s1\<close>; the second
  changes neither the best score, nor the score, nor the total.
\<close>

theorem complete_lower_or_equal_is_noop:
  assumes "fs u = Some (Stored p)" and "username p = u"
    and "map_of (challenge_progress p) cid = Some cp"
    and "s2 \<le> s1"
  shows "\<exists>fs1 r1 p1 cp1 fs2 r2 p2 cp2.
           complete_challenge now fs u cid s1 = (fs1, Inr r1)
         \<and> fs1 u = Some (Stored p1) \<and> map_of (challenge_progress p1) cid = Some cp1
         \<and> best_score cp1 = max (best_score cp) s1
         \<and> complete_challenge later fs1 u cid s2 = (fs2, Inr r2)
         \<and> fs2 u = Some (Stored p2) \<and> map_of (challenge_progress p2) cid = Some cp2
         \<and> best_score cp2 = best_score cp1 \<and> score cp2 = score cp1
         \<and> total_score p2 = total_score p1
         \<and> result_total_score r2 = total_score p1"
proof -
  obtain fs1 r1 where c1: "complete_challenge now fs u cid s1 = (fs1, r1)"
    by (cases "complete_challenge now fs u cid s1")
  from c1 assms obtain p1 x1 where r1: "r1 = Inr x1" and f1: "fs1 u = Some (Stored p1)"
    and u1: "username p1 = u"
    by (auto simp: complete_challenge_existing Let_def split: if_splits)
  from c1 assms f1 obtain cp1 where m1: "map_of (challenge_progress p1) cid = Some cp1"
    and done1: "completed cp1" and b1: "best_score cp1 = max (best_score cp) s1"
    by (auto simp: complete_challenge_existing Let_def AList.update_conv' max_def split: if_splits)
  have le: "\<not> (\<not> completed cp1 \<or> best_score cp1 < s2)"
    using done1 b1 \<open>s2 \<le> s1\<close> by simp
  have c2: "complete_challenge later fs1 u cid s2 =
      (fs1(u \<mapsto> Stored (p1\<lparr>badges := remdups (badges p1 @ check_badges p1),
                                last_activity := later\<rparr>)),
       Inr \<lparr>result_score = s2, result_total_score = total_score p1,
            result_new_badges = check_badges p1,
            result_challenges_completed = challenges_completed p1\<rparr>)"
    using le u1
    by (simp add: complete_challenge_existing [where p = p1 and cp = cp1] f1 m1 Let_def)
  show ?thesis
    using c1 r1 f1 m1 b1 c2 by simp
qed

theorem complete_lower_or_equal_is_noop_witness:
  "veteran_dir ''player'' = Some (Stored veteran) \<and> username veteran = ''player''
   \<and> map_of (challenge_progress veteran) 3 = Some veteran_entry \<and> (110::int) \<le> 120
   \<and> (\<exists>fs1 r1 p1 cp1 fs2 r2 p2 cp2.
           complete_challenge ''t2'' veteran_dir ''player'' 3 120 = (fs1, Inr r1)
         \<and> fs1 ''player'' = Some (Stored p1) \<and> map_of (challenge_progress p1) 3 = Some cp1
         \<and> best_score cp1 = 120
         \<and> complete_challenge ''t3'' fs1 ''player'' 3 110 = (fs2, Inr r2)
         \<and> fs2 ''player'' = Some (Stored p2) \<and> map_of (challenge_progress p2) 3 = Some cp2
         \<and> best_score cp2 = best_score cp1 \<and> score cp2 = score cp1
         \<and> total_score p2 = total_score p1
         \<and> result_total_score r2 = total_score p1)"
proof -
  have h1: "veteran_dir ''player'' = Some (Stored veteran)" by (simp add: veteran_dir_def)
  have h2: "username veteran = ''player''" by (simp add: veteran_def)
  have h3: "map_of (challenge_progress veteran) 3 = Some veteran_entry"
    by (simp add: veteran_def)
  have h4: "(110::int) \<le> 120" by simp
  have b: "max (best_score veteran_entry) 120 = 120" by (simp add: veteran_entry_def)
  show ?thesis
    using h1 h2 h3 complete_lower_or_equal_is_noop
            [where fs = veteran_dir and u = "''player''" and p = veteran and cid = 3
               and cp = veteran_entry and ?s1.0 = 120 and ?s2.0 = 110
               and now = "''t2''" and later = "''t3''"]
    by (simp add: b)
qed

subsection \<open>The scenario of unit 3\<close>

lemma unit_3_step0:
  "start_challenge before Map.empty u 3 = ([u \<mapsto> Stored (unit_3_started u before)], Inr ())"
  by (simp add: start_challenge_def load_progress_None new_progress_def save_progress_def
      unit_3_started_def)

lemma unit_3_step1:
  "complete_challenge now [u \<mapsto> Stored (unit_3_started u before)] u 3 200 =
     ([u \<mapsto> Stored (unit_3_completed u before now now)],
      Inr \<lparr>result_score = 200, result_total_score = 200,
           result_new_badges = [''first_blood'', ''speed_demon''],
           result_challenges_completed = 1\<rparr>)"
proof -
  let ?cp0 = "\<lparr>challenge_id = 3, completed = False, score = 0, attempts = 0,
               hints_used = 0, time_started = Some before, time_completed = None,
               best_score = 0\<rparr>"
  show ?thesis
    by (simp add: complete_challenge_existing [where p = "unit_3_started u before" and cp = ?cp0]
        unit_3_started_def unit_3_completed_def check_badges_def)
qed

lemma unit_3_step2:
  "complete_challenge later [u \<mapsto> Stored (unit_3_completed u before now now)] u 3 150 =
     ([u \<mapsto> Stored (unit_3_completed u before now later)],
      Inr \<lparr>result_score = 150, result_total_score = 200,
           result_new_badges = [], result_challenges_completed = 1\<rparr>)"
proof -
  let ?cp1 = "\<lparr>challenge_id = 3, completed = True, score = 200, attempts = 0,
               hints_used = 0, time_started = Some before, time_completed = Some now,
               best_score = 200\<rparr>"
  show ?thesis
    by (simp add: complete_challenge_existing
          [where p = "unit_3_completed u before now now" and cp = ?cp1]
        unit_3_completed_def check_badges_def)
qed

text \<open>
  C1. For a player without a progress file, \<open>complete_challenge\<close> returns no result
  at all, whatever the unit and the score: \<open>start_challenge\<close> adds the entry to a record
  of its own, loaded from the file, and the subscript on the record that
  \<open>complete_challenge\<close> loaded before raises \<open>KeyError\<close>.
\<close>

theorem complete_challenge_fresh_user_raises:
  assumes "fs u = None"
  shows "snd (complete_challenge now fs u cid s) = Inl KeyError"
proof -
  from assms have l: "load_progress now fs u = Inr (new_progress now u)"
    by (rule load_progress_None)
  have m: "map_of (challenge_progress (new_progress now u)) cid = None"
    by (simp add: new_progress_def)
  obtain fs1 where st: "start_challenge now fs u cid = (fs1, Inr ())"
    using l by (simp add: start_challenge_def Let_def)
  show ?thesis
    by (simp add: complete_challenge_def l m st)
qed

theorem complete_challenge_fresh_user_raises_witness:
  "empty_dir ''player'' = None
   \<and> snd (complete_challenge ''t1'' empty_dir ''player'' 3 200) = Inl KeyError"
proof -
  have h: "empty_dir ''player'' = None" by (simp add: empty_dir_def)
  from h complete_challenge_fresh_user_raises
         [where fs = empty_dir and u = "''player''" and now = "''t1''" and cid = 3 and s = 200]
  show ?thesis by simp
qed

subsection \<open>The invariant of the stored records\<close>

lemma update_absent: "map_of al k = None \<Longrightarrow> AList.update k v al = al @ [(k, v)]"
  by (induction al) (auto split: if_splits)

lemma update_present:
  "map_of al k = Some v \<Longrightarrow>
   \<exists>xs ys. al = xs @ (k, v) # ys \<and> AList.update k v' al = xs @ (k, v') # ys"
proof (induction al)
  case Nil
  then show ?case by simp
next
  case (Cons a al)
  show ?case
  proof (cases "fst a = k")
    case True
    with Cons.prems have "a = (k, v)" by (cases a) auto
    then have "a # al = [] @ (k, v) # al \<and> AList.update k v' (a # al) = [] @ (k, v') # al"
      by simp
    then show ?thesis by blast
  next
    case False
    with Cons.prems have "map_of al k = Some v" by (cases a) auto
    from Cons.IH [OF this] obtain xs ys
      where "al = xs @ (k, v) # ys" "AList.update k v' al = xs @ (k, v') # ys" by blast
    with False have "a # al = (a # xs) @ (k, v) # ys
        \<and> AList.update k v' (a # al) = (a # xs) @ (k, v') # ys"
      by simp
    then show ?thesis by blast
  qed
qed

lemma dir_ok_save: "dir_ok fs \<Longrightarrow> progress_ok p \<Longrightarrow> dir_ok (save_progress fs p)"
  by (simp add: dir_ok_def save_progress_def)

lemma progress_ok_new: "progress_ok (new_progress now u)"
  by (simp add: progress_ok_def new_progress_def completed_scores_def)

lemma load_progress_ok:
  "dir_ok fs \<Longrightarrow> load_progress now fs u = Inr p \<Longrightarrow> progress_ok p"
proof (cases "fs u")
  case None
  assume "load_progress now fs u = Inr p"
  with None show ?thesis using progress_ok_new [of now u] by (simp add: load_progress_None)
next
  case (Some f)
  assume ok: "dir_ok fs" and l: "load_progress now fs u = Inr p"
  show ?thesis
  proof (cases f)
    case Corrupt
    with Some l show ?thesis by (simp add: load_progress_Corrupt)
  next
    case (Stored q)
    with Some l have "q = p" by (simp add: load_progress_Stored)
    with Some Stored ok show ?thesis by (auto simp: dir_ok_def)
  qed
qed

lemma progress_ok_last_activity [simp]:
  "progress_ok (p\<lparr>last_activity := t\<rparr>) = progress_ok p"
  by (simp add: progress_ok_def completed_scores_def)

lemma progress_ok_badges [simp]:
  "progress_ok (p\<lparr>badges := b\<rparr>) = progress_ok p"
  by (simp add: progress_ok_def completed_scores_def)

lemma progress_ok_start:
  assumes "progress_ok p" "map_of (challenge_progress p) cid = None"
  shows "progress_ok (p\<lparr>challenge_progress :=
           AList.update cid
             \<lparr>challenge_id = cid, completed = False, score = 0, attempts = 0,
              hints_used = 0, time_started = Some now, time_completed = None,
              best_score = 0\<rparr> (challenge_progress p)\<rparr>)"
  using assms by (simp add: progress_ok_def completed_scores_def update_absent entry_ok_def)

lemma progress_ok_update_same:
  assumes "progress_ok p" "map_of (challenge_progress p) cid = Some cp"
    and "entry_ok cp'" "completed cp' = completed cp" "score cp' = score cp"
  shows "progress_ok (p\<lparr>challenge_progress := AList.update cid cp' (challenge_progress p)\<rparr>)"
proof -
  from update_present [OF assms(2), of cp'] obtain xs ys
    where "challenge_progress p = xs @ (cid, cp) # ys"
      "AList.update cid cp' (challenge_progress p) = xs @ (cid, cp') # ys" by blast
  with assms show ?thesis
    by (simp add: progress_ok_def completed_scores_def)
qed

lemma progress_ok_complete:
  assumes "progress_ok p" "map_of (challenge_progress p) cid = Some cp"
    and "entry_ok cp'" "completed cp'" "score cp' = s"
  shows "progress_ok (p\<lparr>challenge_progress := AList.update cid cp' (challenge_progress p),
                         total_score := total_score p + (s - score cp)\<rparr>)"
proof -
  from update_present [OF assms(2), of cp'] obtain xs ys
    where *: "challenge_progress p = xs @ (cid, cp) # ys"
      "AList.update cid cp' (challenge_progress p) = xs @ (cid, cp') # ys" by blast
  with assms(1) have "entry_ok cp" by (simp add: progress_ok_def)
  with * assms show ?thesis
    by (auto simp: progress_ok_def completed_scores_def entry_ok_def)
qed

lemma progress_ok_entry:
  assumes "progress_ok p" "map_of (challenge_progress p) cid = Some cp"
  shows "entry_ok cp"
proof -
  from assms(2) have "(cid, cp) \<in> set (challenge_progress p)" by (rule map_of_SomeD)
  then have "cp \<in> snd ` set (challenge_progress p)" by force
  with assms(1) show ?thesis by (auto simp: progress_ok_def list_all_iff)
qed

lemma dir_ok_start_challenge: "dir_ok fs \<Longrightarrow> dir_ok (fst (start_challenge now fs u cid))"
  by (auto simp: start_challenge_def Let_def split: sum.splits
      intro!: dir_ok_save progress_ok_start dest: load_progress_ok)

lemma dir_ok_record_attempt: "dir_ok fs \<Longrightarrow> dir_ok (fst (record_attempt now fs u cid))"
proof -
  assume ok: "dir_ok fs"
  show ?thesis
  proof (cases "load_progress now fs u")
    case (Inl e)
    with ok show ?thesis by (simp add: record_attempt_def)
  next
    case (Inr p)
    with ok have pok: "progress_ok p" by (rule load_progress_ok)
    show ?thesis
    proof (cases "map_of (challenge_progress p) cid")
      case None
      with Inr ok pok show ?thesis by (simp add: record_attempt_def dir_ok_save)
    next
      case (Some cp)
      with pok have "entry_ok cp" by (rule progress_ok_entry)
      then have "entry_ok (cp\<lparr>attempts := attempts cp + 1\<rparr>)" by (auto simp: entry_ok_def)
      with pok Some have "progress_ok (p\<lparr>challenge_progress :=
          AList.update cid (cp\<lparr>attempts := attempts cp + 1\<rparr>) (challenge_progress p)\<rparr>)"
        by (intro progress_ok_update_same) simp_all
      then have "progress_ok (p\<lparr>challenge_progress :=
          AList.update cid (cp\<lparr>attempts := attempts cp + 1\<rparr>) (challenge_progress p),
          total_attempts := total_attempts p + 1\<rparr>)"
        by (simp add: progress_ok_def completed_scores_def)
      with Inr Some ok show ?thesis by (simp add: record_attempt_def dir_ok_save)
    qed
  qed
qed


lemma dir_ok_use_hint: "dir_ok fs \<Longrightarrow> dir_ok (fst (use_hint now fs u cid lvl))"
proof -
  assume ok: "dir_ok fs"
  show ?thesis
  proof (cases "load_progress now fs u")
    case (Inl e)
    with ok show ?thesis by (simp add: use_hint_def)
  next
    case (Inr p)
    with ok have pok: "progress_ok p" by (rule load_progress_ok)
    show ?thesis
    proof (cases "map_of (challenge_progress p) cid")
      case None
      with Inr ok pok show ?thesis by (simp add: use_hint_def dir_ok_save)
    next
      case (Some cp)
      with pok have "entry_ok cp" by (rule progress_ok_entry)
      then have "entry_ok (cp\<lparr>hints_used := hints_used cp + 1\<rparr>)" by (auto simp: entry_ok_def)
      with pok Some have "progress_ok (p\<lparr>challenge_progress :=
          AList.update cid (cp\<lparr>hints_used := hints_used cp + 1\<rparr>) (challenge_progress p)\<rparr>)"
        by (intro progress_ok_update_same) simp_all
      with Inr Some ok show ?thesis by (simp add: use_hint_def dir_ok_save)
    qed
  qed
qed

lemma dir_ok_complete_challenge:
  assumes ok: "dir_ok fs" and s: "0 \<le> s"
  shows "dir_ok (fst (complete_challenge now fs u cid s))"
proof (cases "load_progress now fs u")
  case (Inl e)
  with ok show ?thesis by (simp add: complete_challenge_def)
next
  case (Inr p)
  with ok have pok: "progress_ok p" by (rule load_progress_ok)
  show ?thesis
  proof (cases "map_of (challenge_progress p) cid")
    case None
    have "fst (complete_challenge now fs u cid s) = fst (start_challenge now fs u cid)"
      using Inr None by (simp add: complete_challenge_def split: prod.splits sum.splits)
    with ok show ?thesis by (simp add: dir_ok_start_challenge)
  next
    case (Some cp)
    from pok Some have eok: "entry_ok cp" by (rule progress_ok_entry)
    show ?thesis
    proof (cases "\<not> completed cp \<or> best_score cp < s")
      case False
      with Inr Some ok pok show ?thesis
        by (simp add: complete_challenge_def Let_def dir_ok_save)
    next
      case True
      define cp' where "cp' = (if completed cp then cp
                          else cp\<lparr>completed := True, time_completed := Some now\<rparr>)
                           \<lparr>score := s, best_score := max (best_score cp) s\<rparr>"
      have "entry_ok cp'" "completed cp'" "score cp' = s"
        using True eok s by (auto simp: cp'_def entry_ok_def max_def)
      with pok Some have "progress_ok (p\<lparr>challenge_progress := AList.update cid cp' (challenge_progress p),
                         total_score := total_score p + (s - score cp)\<rparr>)"
        by (intro progress_ok_complete) simp_all
      then have "progress_ok (p\<lparr>challenges_completed :=
                      (if completed cp then challenges_completed p else challenges_completed p + 1),
                    challenge_progress := AList.update cid cp' (challenge_progress p),
                         total_score := total_score p + (s - score cp)\<rparr>)"
        by (simp add: progress_ok_def completed_scores_def)
      with Inr Some ok True show ?thesis
        by (auto simp: complete_challenge_def Let_def cp'_def intro!: dir_ok_save)
    qed
  qed
qed


lemma dir_ok_apply_operation:
  "dir_ok fs \<Longrightarrow> nonnegative_score operation \<Longrightarrow> dir_ok (apply_operation now fs operation)"
  by (cases operation)
     (simp_all add: dir_ok_start_challenge dir_ok_record_attempt dir_ok_use_hint
        dir_ok_complete_challenge)

lemma dir_ok_run_operations:
  "dir_ok fs \<Longrightarrow> \<forall>(now, operation) \<in> set ops. nonnegative_score operation
     \<Longrightarrow> dir_ok (run_operations fs ops)"
proof (induction ops arbitrary: fs)
  case Nil
  then show ?case by simp
next
  case (Cons a ops)
  obtain now operation where a: "a = (now, operation)" by (cases a)
  with Cons.prems have "dir_ok (apply_operation now fs operation)"
    by (simp add: dir_ok_apply_operation)
  with Cons.IH [of "apply_operation now fs operation"] Cons.prems a show ?case by simp
qed

lemma completed_scores_best:
  "list_all entry_ok (map snd (challenge_progress p))
     \<Longrightarrow> completed_best_scores p = completed_scores p"
  by (induction "challenge_progress p" arbitrary: p)
     (auto simp: completed_scores_def completed_best_scores_def entry_ok_def list_all_iff)

text \<open>
  C9. From an empty data directory, after any sequence of the four operations with
  nonnegative scores, every entry of every stored record has its score equal to its
  best score, and the total is the sum of the scores (equally, of the best scores) of
  the completed entries.
\<close>

theorem score_is_best_score_in_every_entry:
  assumes "\<forall>(now, operation) \<in> set ops. nonnegative_score operation"
    and "run_operations Map.empty ops u = Some (Stored p)"
  shows "(\<forall>(cid, cp) \<in> set (challenge_progress p). score cp = best_score cp)
       \<and> total_score p = sum_list (completed_scores p)
       \<and> total_score p = sum_list (completed_best_scores p)"
proof -
  have "dir_ok Map.empty" by (simp add: dir_ok_def)
  with assms(1) have "dir_ok (run_operations Map.empty ops)"
    by (rule dir_ok_run_operations [rotated])
  with assms(2) have ok: "progress_ok p" by (auto simp: dir_ok_def)
  then have all: "list_all entry_ok (map snd (challenge_progress p))"
    and total: "total_score p = sum_list (completed_scores p)"
    by (simp_all add: progress_ok_def)
  from all have "\<forall>(cid, cp) \<in> set (challenge_progress p). score cp = best_score cp"
    by (auto simp: list_all_iff entry_ok_def)
  with total completed_scores_best [OF all] show ?thesis by simp
qed

theorem score_is_best_score_in_every_entry_witness:
  "list_all (\<lambda>(now, operation). nonnegative_score operation) unit_3_run
   \<and> run_operations Map.empty unit_3_run ''player''
       = Some (Stored (unit_3_completed ''player'' ''t0'' ''t1'' ''t2''))
   \<and> list_all (\<lambda>(cid, cp). score cp = best_score cp)
         (challenge_progress (unit_3_completed ''player'' ''t0'' ''t1'' ''t2''))
   \<and> total_score (unit_3_completed ''player'' ''t0'' ''t1'' ''t2'') = 200
   \<and> sum_list (completed_scores (unit_3_completed ''player'' ''t0'' ''t1'' ''t2'')) = 200
   \<and> sum_list (completed_best_scores (unit_3_completed ''player'' ''t0'' ''t1'' ''t2'')) = 200"
proof -
  have h1: "\<forall>(now, operation) \<in> set unit_3_run. nonnegative_score operation"
    by (simp add: unit_3_run_def)
  have h2: "run_operations Map.empty unit_3_run ''player''
       = Some (Stored (unit_3_completed ''player'' ''t0'' ''t1'' ''t2''))"
    by (simp add: unit_3_run_def unit_3_step0 unit_3_step1 unit_3_step2)
  have t: "total_score (unit_3_completed ''player'' ''t0'' ''t1'' ''t2'') = 200"
    by (simp add: unit_3_completed_def)
  show ?thesis
    using h1 h2 t score_is_best_score_in_every_entry [OF h1 h2]
    by (simp add: list_all_iff)
qed

section \<open>Properties of the tool registry\<close>

subsection \<open>Decimal numerals and namespaced names\<close>

lemma of_char_digit_char: "d < 10 \<Longrightarrow> of_char (digit_char d) = 48 + d"
  by (simp add: digit_char_def of_char_of)

lemma digit_char_inj: "a < 10 \<Longrightarrow> b < 10 \<Longrightarrow> digit_char a = digit_char b \<Longrightarrow> a = b"
proof -
  assume a: "a < 10" and b: "b < 10" and e: "digit_char a = digit_char b"
  from e have "(of_char (digit_char a) :: nat) = of_char (digit_char b)" by simp
  with a b show ?thesis by (simp add: of_char_digit_char)
qed

lemma digit_char_not_underscore: "d < 10 \<Longrightarrow> digit_char d \<noteq> CHR ''_''"
proof
  assume d: "d < 10" and e: "digit_char d = CHR ''_''"
  from e have "(of_char (digit_char d) :: nat) = of_char CHR ''_''" by simp
  with d show False by (simp add: of_char_digit_char)
qed

lemma digit_char_not_minus: "d < 10 \<Longrightarrow> digit_char d \<noteq> CHR ''-''"
proof
  assume d: "d < 10" and e: "digit_char d = CHR ''-''"
  from e have "(of_char (digit_char d) :: nat) = of_char CHR ''-''" by simp
  with d show False by (simp add: of_char_digit_char)
qed

lemma digits_nonempty: "digits n \<noteq> []"
  by (subst digits.simps) simp

lemma digits_chars: "c \<in> set (digits n) \<Longrightarrow> c \<noteq> CHR ''_'' \<and> c \<noteq> CHR ''-''"
proof (induction n rule: digits.induct)
  case (1 n)
  show ?case
  proof (cases "n < 10")
    case True
    with "1.prems" have "c = digit_char n" by (subst (asm) digits.simps) simp
    with True show ?thesis by (simp add: digit_char_not_underscore digit_char_not_minus)
  next
    case False
    with "1.prems" have "c \<in> set (digits (n div 10)) \<or> c = digit_char (n mod 10)"
      by (subst (asm) digits.simps) auto
    then show ?thesis
    proof
      assume "c \<in> set (digits (n div 10))"
      with False "1.IH" show ?thesis by simp
    next
      assume "c = digit_char (n mod 10)"
      then show ?thesis by (simp add: digit_char_not_underscore digit_char_not_minus)
    qed
  qed
qed

lemma digits_inj: "digits n = digits m \<Longrightarrow> n = m"
proof (induction n arbitrary: m rule: digits.induct)
  case (1 n)
  show ?case
  proof (cases "n < 10")
    case n: True
    then have dn: "digits n = [digit_char n]" by (subst digits.simps) simp
    show ?thesis
    proof (cases "m < 10")
      case True
      then have "digits m = [digit_char m]" by (subst digits.simps) simp
      with dn "1.prems" n True show ?thesis by (simp add: digit_char_inj)
    next
      case False
      then have "digits m = digits (m div 10) @ [digit_char (m mod 10)]"
        by (subst digits.simps) simp
      with dn "1.prems" have "digits (m div 10) = []" by simp
      then show ?thesis by (simp add: digits_nonempty)
    qed
  next
    case n: False
    then have dn: "digits n = digits (n div 10) @ [digit_char (n mod 10)]"
      by (subst digits.simps) simp
    show ?thesis
    proof (cases "m < 10")
      case True
      then have "digits m = [digit_char m]" by (subst digits.simps) simp
      with dn "1.prems" have "digits (n div 10) = []" by simp
      then show ?thesis by (simp add: digits_nonempty)
    next
      case False
      then have "digits m = digits (m div 10) @ [digit_char (m mod 10)]"
        by (subst digits.simps) simp
      with dn "1.prems" have e: "digits (n div 10) = digits (m div 10)"
        "digit_char (n mod 10) = digit_char (m mod 10)" by simp_all
      from e(1) n "1.IH" have "n div 10 = m div 10" by simp
      moreover from e(2) have "n mod 10 = m mod 10" by (simp add: digit_char_inj)
      ultimately show ?thesis by (metis div_mult_mod_eq)
    qed
  qed
qed

lemma str_int_chars: "CHR ''_'' \<notin> set (str_int i)"
  using digits_chars by (auto simp: str_int_def)

lemma str_int_inj: "str_int i = str_int j \<Longrightarrow> i = j"
proof -
  assume e: "str_int i = str_int j"
  have hd_digits: "\<And>n. hd (digits n) \<noteq> CHR ''-''"
    using digits_chars digits_nonempty by (metis hd_in_set)
  show ?thesis
  proof (cases "i < 0")
    case i: True
    show ?thesis
    proof (cases "j < 0")
      case True
      with i e have "digits (nat (- i)) = digits (nat (- j))" by (simp add: str_int_def)
      then have "nat (- i) = nat (- j)" by (rule digits_inj)
      with i True show ?thesis by simp
    next
      case False
      with i e have "CHR ''-'' # digits (nat (- i)) = digits (nat j)" by (simp add: str_int_def)
      then have "hd (digits (nat j)) = CHR ''-''" by (metis list.sel(1))
      with hd_digits show ?thesis by blast
    qed
  next
    case i: False
    show ?thesis
    proof (cases "j < 0")
      case True
      with i e have "digits (nat i) = CHR ''-'' # digits (nat (- j))" by (simp add: str_int_def)
      then have "hd (digits (nat i)) = CHR ''-''" by simp
      with hd_digits show ?thesis by blast
    next
      case False
      with i e have "digits (nat i) = digits (nat j)" by (simp add: str_int_def)
      then have "nat i = nat j" by (rule digits_inj)
      with i False show ?thesis by simp
    qed
  qed
qed

lemma split_at_first:
  "xs @ c # ys = xs' @ c # ys' \<Longrightarrow> c \<notin> set xs \<Longrightarrow> c \<notin> set xs' \<Longrightarrow> xs = xs' \<and> ys = ys'"
proof (induction xs arbitrary: xs')
  case Nil
  then show ?case by (cases xs') auto
next
  case (Cons a xs)
  then show ?case by (cases xs') auto
qed

lemma ns_name_inj: "ns_name cid n = ns_name cid' n' \<Longrightarrow> cid = cid' \<and> n = n'"
proof -
  assume "ns_name cid n = ns_name cid' n'"
  then have "str_int cid @ CHR ''_'' # (CHR ''_'' # n) = str_int cid' @ CHR ''_'' # (CHR ''_'' # n')"
    by (simp add: ns_name_def)
  then have "str_int cid = str_int cid' \<and> CHR ''_'' # n = CHR ''_'' # n'"
    by (rule split_at_first) (simp_all add: str_int_chars)
  then show ?thesis by (simp add: str_int_inj)
qed

lemma str_int_1: "str_int 1 = ''1''"
  by code_simp

lemma str_int_2: "str_int 2 = ''2''"
  by code_simp

subsection \<open>The two loops\<close>

lemma dict_get_update:
  "dict_get (AList.update k v al) n d = (if n = k then v else dict_get al n d)"
  by (simp add: dict_get_def AList.update_conv')

lemma dict_get_Nil [simp]: "dict_get [] n d = d"
  by (simp add: dict_get_def)

lemma dict_get_count_names:
  "dict_get (count_names ts nc) n 0 = dict_get nc n 0 + int (length (filter (\<lambda>t. name t = n) ts))"
  by (induction ts arbitrary: nc) (simp_all add: count_names_def dict_get_update)

lemma count_names_Nil [simp]: "count_names [] nc = nc"
  by (simp add: count_names_def)

lemma count_names_append: "count_names (ts @ ts') nc = count_names ts' (count_names ts nc)"
  by (simp add: count_names_def)

lemma gather_fold:
  "fold (\<lambda>(cid, challenge) (name_counts, per_challenge_tools).
             let tools = get_tools challenge
             in (count_names tools name_counts, AList.update cid tools per_challenge_tools))
          chs (nc, pct)
   = (count_names (all_tools chs) nc,
      fold (\<lambda>(cid, challenge). AList.update cid (get_tools challenge)) chs pct)"
  by (induction chs arbitrary: nc pct)
     (auto simp: all_tools_def count_names_append Let_def)

lemma update_fresh_key: "k \<notin> fst ` set al \<Longrightarrow> AList.update k v al = al @ [(k, v)]"
  by (induction al) auto

lemma per_challenge_fold:
  "distinct (map fst pct @ map fst chs) \<Longrightarrow>
   fold (\<lambda>(cid, challenge). AList.update cid (get_tools challenge)) chs pct
     = pct @ declared_tools chs"
proof (induction chs arbitrary: pct)
  case Nil
  then show ?case by (simp add: declared_tools_def)
next
  case (Cons c chs)
  obtain cid ch where c: "c = (cid, ch)" by (cases c)
  from Cons.prems c have fresh: "cid \<notin> fst ` set pct" by auto
  from Cons.prems c have "distinct (map fst (pct @ [(cid, get_tools ch)]) @ map fst chs)"
    by auto
  from Cons.IH [OF this] fresh c show ?case
    by (simp add: update_fresh_key declared_tools_def)
qed

lemma gather_tools_eq:
  "distinct (map fst chs) \<Longrightarrow>
   gather_tools chs = (count_names (all_tools chs) [], declared_tools chs)"
  using per_challenge_fold [of "[]" chs] by (simp add: gather_tools_def gather_fold)

lemma register_pairs_Nil [simp]: "register_pairs nc [] reg = reg"
  by (simp add: register_pairs_def)

lemma register_pairs_Cons [simp]:
  "register_pairs nc ((cid, t) # xs) reg = register_pairs nc xs (register_tool nc cid t reg)"
  by (simp add: register_pairs_def)

lemma register_pairs_append:
  "register_pairs nc (xs @ ys) reg = register_pairs nc ys (register_pairs nc xs reg)"
  by (simp add: register_pairs_def)

lemma register_pairs_map_Pair:
  "fold (register_tool nc cid) tools reg = register_pairs nc (map (Pair cid) tools) reg"
  by (induction tools arbitrary: reg) simp_all

lemma register_tools_flat:
  "register_tools nc pct reg = register_pairs nc (tool_pairs pct) reg"
proof (induction pct arbitrary: reg)
  case Nil
  show ?case by (simp add: register_tools_def tool_pairs_def)
next
  case (Cons a pct)
  obtain cid tools where a: "a = (cid, tools)" by (cases a)
  have "register_tools nc (a # pct) reg
      = register_tools nc pct (fold (register_tool nc cid) tools reg)"
    by (simp add: register_tools_def a)
  also have "\<dots> = register_pairs nc (tool_pairs pct) (register_pairs nc (map (Pair cid) tools) reg)"
    by (simp add: Cons.IH register_pairs_map_Pair)
  also have "\<dots> = register_pairs nc (tool_pairs (a # pct)) reg"
    by (simp add: tool_pairs_def a register_pairs_append)
  finally show ?case .
qed

lemma namespaced_tools_register_pairs:
  "namespaced_tools (register_pairs nc xs reg) = namespaced_tools reg @ map ns_tool xs"
  by (induction xs arbitrary: reg) (auto simp: register_tool_def ns_tool_def Let_def)

lemma set_update_subset: "set (AList.update k v al) \<subseteq> insert (k, v) (set al)"
  by (induction al) auto

lemma tool_registry_register_tool:
  "tool_registry (register_tool nc cid t reg)
     = AList.update (ns_name cid (name t)) (cid, name t) (tool_registry reg)"
  by (simp add: register_tool_def Let_def)

lemma unique_registry_register_tool:
  "unique_tool_registry (register_tool nc cid t reg)
     = (if dict_get nc (name t) 0 = 1
        then AList.update (name t) (cid, name t) (unique_tool_registry reg)
        else unique_tool_registry reg)"
  by (simp add: register_tool_def Let_def)

lemma tool_registry_keys:
  "fst ` set (tool_registry (register_pairs nc xs reg))
     = fst ` set (tool_registry reg) \<union> (\<lambda>ct. ns_name (fst ct) (name (snd ct))) ` set xs"
proof (induction xs arbitrary: reg)
  case Nil
  show ?case by simp
next
  case (Cons a xs)
  obtain cid t where a: "a = (cid, t)" by (cases a)
  have "fst ` set (tool_registry (register_pairs nc (a # xs) reg))
      = fst ` set (tool_registry (register_tool nc cid t reg))
        \<union> (\<lambda>ct. ns_name (fst ct) (name (snd ct))) ` set xs"
    by (simp add: a Cons.IH)
  also have "fst ` set (tool_registry (register_tool nc cid t reg))
      = {ns_name cid (name t)} \<union> fst ` set (tool_registry reg)"
    by (simp only: tool_registry_register_tool AList.dom_update)
  finally have "fst ` set (tool_registry (register_pairs nc (a # xs) reg))
      = ({ns_name cid (name t)} \<union> fst ` set (tool_registry reg))
        \<union> (\<lambda>ct. ns_name (fst ct) (name (snd ct))) ` set xs" .
  also have "\<dots> = fst ` set (tool_registry reg)
        \<union> (\<lambda>ct. ns_name (fst ct) (name (snd ct))) ` set (a # xs)"
    unfolding a by auto
  finally show ?case .
qed

lemma in_set_updateD:
  "(k, v) \<in> set (AList.update k' v' al) \<Longrightarrow> (k, v) = (k', v') \<or> (k, v) \<in> set al"
  using set_update_subset [of k' v' al] by blast

lemma tool_registry_entries:
  "(k, v) \<in> set (tool_registry (register_pairs nc xs reg)) \<Longrightarrow>
   (k, v) \<in> set (tool_registry reg)
     \<or> (\<exists>ct \<in> set xs. k = ns_name (fst ct) (name (snd ct)) \<and> v = (fst ct, name (snd ct)))"
proof (induction xs arbitrary: reg)
  case Nil
  then show ?case by simp
next
  case (Cons a xs)
  obtain cid t where a: "a = (cid, t)" by (cases a)
  from Cons.prems a
  have "(k, v) \<in> set (tool_registry (register_pairs nc xs (register_tool nc cid t reg)))"
    by simp
  then have "(k, v) \<in> set (tool_registry (register_tool nc cid t reg))
     \<or> (\<exists>ct \<in> set xs. k = ns_name (fst ct) (name (snd ct)) \<and> v = (fst ct, name (snd ct)))"
    by (rule Cons.IH)
  then show ?case
  proof
    assume "(k, v) \<in> set (tool_registry (register_tool nc cid t reg))"
    then have "(k, v) = (ns_name cid (name t), (cid, name t)) \<or> (k, v) \<in> set (tool_registry reg)"
      unfolding tool_registry_register_tool by (rule in_set_updateD)
    then show ?thesis
    proof
      assume "(k, v) = (ns_name cid (name t), (cid, name t))"
      then have "k = ns_name (fst a) (name (snd a)) \<and> v = (fst a, name (snd a))"
        by (simp add: a)
      moreover have "a \<in> set (a # xs)" by simp
      ultimately show ?thesis by blast
    next
      assume "(k, v) \<in> set (tool_registry reg)"
      then show ?thesis ..
    qed
  next
    assume "\<exists>ct\<in>set xs. k = ns_name (fst ct) (name (snd ct)) \<and> v = (fst ct, name (snd ct))"
    then obtain ct where "ct \<in> set (a # xs)"
      "k = ns_name (fst ct) (name (snd ct)) \<and> v = (fst ct, name (snd ct))" by auto
    then show ?thesis by blast
  qed
qed

lemma tool_registry_key_list:
  "distinct (map fst (tool_registry reg) @ map (\<lambda>ct. ns_name (fst ct) (name (snd ct))) xs) \<Longrightarrow>
   map fst (tool_registry (register_pairs nc xs reg))
     = map fst (tool_registry reg) @ map (\<lambda>ct. ns_name (fst ct) (name (snd ct))) xs"
proof (induction xs arbitrary: reg)
  case Nil
  then show ?case by simp
next
  case (Cons a xs)
  obtain cid t where a: "a = (cid, t)" by (cases a)
  let ?reg = "register_tool nc cid t reg"
  from Cons.prems a have fresh: "ns_name cid (name t) \<notin> set (map fst (tool_registry reg))"
    by auto
  then have keys: "map fst (tool_registry ?reg) = map fst (tool_registry reg) @ [ns_name cid (name t)]"
    by (simp add: tool_registry_register_tool AList.update_keys)
  with Cons.prems a have "distinct (map fst (tool_registry ?reg)
      @ map (\<lambda>ct. ns_name (fst ct) (name (snd ct))) xs)" by auto
  from Cons.IH [OF this] keys a show ?case by simp
qed

lemma unique_registry_keys:
  "fst ` set (unique_tool_registry (register_pairs nc xs reg))
     = fst ` set (unique_tool_registry reg)
       \<union> {name (snd ct) | ct. ct \<in> set xs \<and> dict_get nc (name (snd ct)) 0 = 1}"
proof (induction xs arbitrary: reg)
  case Nil
  show ?case by simp
next
  case (Cons a xs)
  obtain cid t where a: "a = (cid, t)" by (cases a)
  let ?rest = "{name (snd ct) | ct. ct \<in> set xs \<and> dict_get nc (name (snd ct)) 0 = 1}"
  have step: "fst ` set (unique_tool_registry (register_pairs nc (a # xs) reg))
      = fst ` set (unique_tool_registry (register_tool nc cid t reg)) \<union> ?rest"
    by (simp add: a Cons.IH)
  have split: "{name (snd ct) | ct. ct \<in> set (a # xs) \<and> dict_get nc (name (snd ct)) 0 = 1}
      = (if dict_get nc (name t) 0 = 1 then {name t} else {}) \<union> ?rest"
    by (auto simp: a)
  have "fst ` set (unique_tool_registry (register_tool nc cid t reg))
      = (if dict_get nc (name t) 0 = 1 then {name t} else {})
        \<union> fst ` set (unique_tool_registry reg)"
    by (simp add: unique_registry_register_tool AList.dom_update)
  with step have "fst ` set (unique_tool_registry (register_pairs nc (a # xs) reg))
      = ((if dict_get nc (name t) 0 = 1 then {name t} else {})
        \<union> fst ` set (unique_tool_registry reg)) \<union> ?rest" by simp
  also have "\<dots> = fst ` set (unique_tool_registry reg)
      \<union> ((if dict_get nc (name t) 0 = 1 then {name t} else {}) \<union> ?rest)"
    by blast
  finally show ?case unfolding split .
qed

lemma unique_registry_entries:
  "(k, v) \<in> set (unique_tool_registry (register_pairs nc xs reg)) \<Longrightarrow>
   (k, v) \<in> set (unique_tool_registry reg)
     \<or> (\<exists>ct \<in> set xs. k = name (snd ct) \<and> v = (fst ct, name (snd ct)) \<and> dict_get nc k 0 = 1)"
proof (induction xs arbitrary: reg)
  case Nil
  then show ?case by simp
next
  case (Cons a xs)
  obtain cid t where a: "a = (cid, t)" by (cases a)
  from Cons.prems a
  have "(k, v) \<in> set (unique_tool_registry (register_pairs nc xs (register_tool nc cid t reg)))"
    by simp
  then have "(k, v) \<in> set (unique_tool_registry (register_tool nc cid t reg))
     \<or> (\<exists>ct \<in> set xs. k = name (snd ct) \<and> v = (fst ct, name (snd ct)) \<and> dict_get nc k 0 = 1)"
    by (rule Cons.IH)
  then show ?case
  proof
    assume in_reg: "(k, v) \<in> set (unique_tool_registry (register_tool nc cid t reg))"
    show ?thesis
    proof (cases "dict_get nc (name t) 0 = 1")
      case True
      with in_reg
      have "(k, v) \<in> set (AList.update (name t) (cid, name t) (unique_tool_registry reg))"
        by (simp add: unique_registry_register_tool)
      then have "(k, v) = (name t, (cid, name t)) \<or> (k, v) \<in> set (unique_tool_registry reg)"
        by (rule in_set_updateD)
      then show ?thesis
      proof
        assume "(k, v) = (name t, (cid, name t))"
        with True have "k = name (snd a) \<and> v = (fst a, name (snd a)) \<and> dict_get nc k 0 = 1"
          by (simp add: a)
        moreover have "a \<in> set (a # xs)" by simp
      ultimately show ?thesis by blast
      next
        assume "(k, v) \<in> set (unique_tool_registry reg)"
        then show ?thesis ..
      qed
    next
      case False
      with in_reg show ?thesis by (simp add: unique_registry_register_tool)
    qed
  next
    assume "\<exists>ct\<in>set xs. k = name (snd ct) \<and> v = (fst ct, name (snd ct)) \<and> dict_get nc k 0 = 1"
    then obtain ct where "ct \<in> set (a # xs)"
      "k = name (snd ct) \<and> v = (fst ct, name (snd ct)) \<and> dict_get nc k 0 = 1" by auto
    then show ?thesis by blast
  qed
qed

lemma build_tool_registry_eq:
  "distinct (map fst chs) \<Longrightarrow>
   build_tool_registry chs
     = Inr (register_pairs (count_names (all_tools chs) []) (declared_pairs chs) empty_registry)"
  by (simp add: build_tool_registry_def gather_tools_eq register_tools_flat declared_pairs_def
      empty_registry_def)

lemma set_declared_pairs:
  "set (declared_pairs chs) = {(cid, t). \<exists>ch. (cid, ch) \<in> set chs \<and> t \<in> set (get_tools ch)}"
  by (auto simp: declared_pairs_def tool_pairs_def declared_tools_def)

lemma map_snd_declared_pairs: "map snd (declared_pairs chs) = all_tools chs"
  by (induction chs)
     (auto simp: declared_pairs_def tool_pairs_def declared_tools_def all_tools_def comp_def)

lemma name_count_occurrences:
  "dict_get (count_names (all_tools chs) []) n 0 = int (occurrences n chs)"
  by (simp add: dict_get_count_names occurrences_def)

lemma occurrences_pairs:
  "occurrences n chs = length (filter (\<lambda>ct. name (snd ct) = n) (declared_pairs chs))"
proof -
  have "filter (\<lambda>t. name t = n) (map snd (declared_pairs chs))
      = map snd (filter (\<lambda>ct. name (snd ct) = n) (declared_pairs chs))"
    by (simp add: filter_map comp_def)
  then show ?thesis
    by (simp add: occurrences_def map_snd_declared_pairs [symmetric] del: map_snd_declared_pairs)
qed

lemma occurrences_one_unique:
  assumes "occurrences n chs = 1"
    and "ct \<in> set (declared_pairs chs)" "name (snd ct) = n"
    and "ct' \<in> set (declared_pairs chs)" "name (snd ct') = n"
  shows "ct = ct'"
proof -
  let ?f = "filter (\<lambda>ct. name (snd ct) = n) (declared_pairs chs)"
  from assms(1) have "length ?f = 1" by (simp add: occurrences_pairs)
  then obtain x where x: "?f = [x]" by (cases ?f) auto
  from assms have "ct \<in> set ?f" "ct' \<in> set ?f" by simp_all
  with x show ?thesis by simp
qed

lemma occurrences_one_declared:
  assumes "occurrences n chs = 1"
  shows "\<exists>ct \<in> set (declared_pairs chs). name (snd ct) = n"
proof -
  let ?f = "filter (\<lambda>ct. name (snd ct) = n) (declared_pairs chs)"
  from assms have "length ?f = 1" by (simp add: occurrences_pairs)
  then obtain x where x: "?f = [x]" by (cases ?f) auto
  then have "x \<in> set ?f" by simp
  then show ?thesis by auto
qed

lemma alias_present_iff:
  assumes "distinct (map fst chs)" and "build_tool_registry chs = Inr reg"
  shows "(map_of (unique_tool_registry reg) n \<noteq> None) = (occurrences n chs = 1)"
proof -
  let ?nc = "count_names (all_tools chs) []"
  from assms have reg: "reg = register_pairs ?nc (declared_pairs chs) empty_registry"
    by (simp add: build_tool_registry_eq)
  have keys: "fst ` set (unique_tool_registry reg)
      = {name (snd ct) | ct. ct \<in> set (declared_pairs chs) \<and> dict_get ?nc (name (snd ct)) 0 = 1}"
    unfolding reg unique_registry_keys by (simp add: empty_registry_def)
  have "(map_of (unique_tool_registry reg) n \<noteq> None) = (n \<in> fst ` set (unique_tool_registry reg))"
    by (simp add: map_of_eq_None_iff)
  also have "\<dots> = (occurrences n chs = 1)"
  proof
    assume "n \<in> fst ` set (unique_tool_registry reg)"
    with keys have "n \<in> {name (snd ct) | ct. ct \<in> set (declared_pairs chs)
        \<and> dict_get ?nc (name (snd ct)) 0 = 1}" by simp
    then have "dict_get ?nc n 0 = 1" by auto
    then show "occurrences n chs = 1" by (simp add: name_count_occurrences)
  next
    assume one: "occurrences n chs = 1"
    then obtain ct where "ct \<in> set (declared_pairs chs)" "name (snd ct) = n"
      using occurrences_one_declared by blast
    moreover from one have "dict_get ?nc n 0 = 1" by (simp add: name_count_occurrences)
    ultimately have "n \<in> {name (snd ct) | ct. ct \<in> set (declared_pairs chs)
        \<and> dict_get ?nc (name (snd ct)) 0 = 1}" by blast
    with keys show "n \<in> fst ` set (unique_tool_registry reg)" by simp
  qed
  finally show ?thesis .
qed

lemma alias_points_to_declarer:
  assumes "distinct (map fst chs)" and "build_tool_registry chs = Inr reg"
    and "map_of (unique_tool_registry reg) n = Some v"
  shows "\<exists>cid ch t. (cid, ch) \<in> set chs \<and> t \<in> set (get_tools ch) \<and> name t = n \<and> v = (cid, n)
           \<and> (\<forall>cid' ch' t'. (cid', ch') \<in> set chs \<and> t' \<in> set (get_tools ch') \<and> name t' = n
                  \<longrightarrow> cid' = cid)"
proof -
  let ?nc = "count_names (all_tools chs) []"
  from assms have reg: "reg = register_pairs ?nc (declared_pairs chs) empty_registry"
    by (simp add: build_tool_registry_eq)
  from assms(3) have "(n, v) \<in> set (unique_tool_registry reg)" by (rule map_of_SomeD)
  then have "(n, v) \<in> set (unique_tool_registry empty_registry)
     \<or> (\<exists>ct \<in> set (declared_pairs chs). n = name (snd ct) \<and> v = (fst ct, name (snd ct))
           \<and> dict_get ?nc n 0 = 1)"
    unfolding reg by (rule unique_registry_entries)
  then obtain ct where ct: "ct \<in> set (declared_pairs chs)" "n = name (snd ct)"
      "v = (fst ct, name (snd ct))" and one: "occurrences n chs = 1"
    by (auto simp: empty_registry_def name_count_occurrences)
  obtain cid t where ct_eq: "ct = (cid, t)" by (cases ct)
  with ct(1) obtain ch where ch: "(cid, ch) \<in> set chs" "t \<in> set (get_tools ch)"
    by (auto simp: set_declared_pairs)
  have uniq: "cid' = cid"
    if "(cid', ch') \<in> set chs \<and> t' \<in> set (get_tools ch') \<and> name t' = n"
    for cid' ch' t'
  proof -
    from that have "(cid', t') \<in> set (declared_pairs chs)" by (auto simp: set_declared_pairs)
    with one ct(1,2) that have "ct = (cid', t')"
      by (intro occurrences_one_unique [of n chs]) simp_all
    with ct_eq show ?thesis by simp
  qed
  from ct(2,3) ct_eq have "name t = n" "v = (cid, n)" by simp_all
  with ch uniq show ?thesis
    by (intro exI [of _ cid] exI [of _ ch] exI [of _ t] conjI allI impI)
qed

text \<open>
  C3. For challenges with distinct ids (a dictionary), the build returns a registry in
  which a bare name has an alias exactly when it is declared once over all challenges,
  and an alias points to the challenge that declares the name, which is the only one.
\<close>

theorem alias_iff_globally_unique:
  assumes "distinct (map fst challenges)"
  shows "\<exists>reg. build_tool_registry challenges = Inr reg
     \<and> (\<forall>n. (map_of (unique_tool_registry reg) n \<noteq> None) = (occurrences n challenges = 1))
     \<and> (\<forall>n v. map_of (unique_tool_registry reg) n = Some v \<longrightarrow>
          (\<exists>cid ch t. (cid, ch) \<in> set challenges \<and> t \<in> set (get_tools ch) \<and> name t = n
             \<and> v = (cid, n)
             \<and> (\<forall>cid' ch' t'. (cid', ch') \<in> set challenges \<and> t' \<in> set (get_tools ch')
                    \<and> name t' = n \<longrightarrow> cid' = cid)))"
proof -
  from assms obtain reg where reg: "build_tool_registry challenges = Inr reg"
    by (simp add: build_tool_registry_eq)
  show ?thesis
  proof (intro exI [of _ reg] conjI allI impI)
    show "build_tool_registry challenges = Inr reg" by (rule reg)
  next
    fix n
    show "(map_of (unique_tool_registry reg) n \<noteq> None) = (occurrences n challenges = 1)"
      by (rule alias_present_iff [OF assms reg])
  next
    fix n v
    assume "map_of (unique_tool_registry reg) n = Some v"
    then show "\<exists>cid ch t. (cid, ch) \<in> set challenges \<and> t \<in> set (get_tools ch) \<and> name t = n
             \<and> v = (cid, n)
             \<and> (\<forall>cid' ch' t'. (cid', ch') \<in> set challenges \<and> t' \<in> set (get_tools ch')
                    \<and> name t' = n \<longrightarrow> cid' = cid)"
      by (rule alias_points_to_declarer [OF assms reg])
  qed
qed

lemma ns_key_eq: "ns_key ct = ns_key ct' \<Longrightarrow> fst ct = fst ct' \<and> name (snd ct) = name (snd ct')"
  unfolding ns_key_def by (rule ns_name_inj)

lemma declared_pairs_Cons:
  "declared_pairs ((cid, ch) # chs) = map (Pair cid) (get_tools ch) @ declared_pairs chs"
  by (simp add: declared_pairs_def tool_pairs_def declared_tools_def)

lemma declared_pairs_append:
  "declared_pairs (chs @ chs') = declared_pairs chs @ declared_pairs chs'"
  by (simp add: declared_pairs_def tool_pairs_def declared_tools_def)

lemma fst_declared_pairs: "ct \<in> set (declared_pairs chs) \<Longrightarrow> fst ct \<in> fst ` set chs"
  by (force simp: set_declared_pairs)

lemma distinct_ns_keys:
  assumes "distinct (map fst chs)"
    and "\<forall>(cid, ch) \<in> set chs. distinct (map name (get_tools ch))"
  shows "distinct (map ns_key (declared_pairs chs))"
  using assms
proof (induction chs)
  case Nil
  show ?case by (simp add: declared_pairs_def tool_pairs_def declared_tools_def)
next
  case (Cons c chs)
  obtain cid ch where c: "c = (cid, ch)" by (cases c)
  from Cons.prems c have names: "distinct (map name (get_tools ch))" by simp
  have own: "distinct (map ns_key (map (Pair cid) (get_tools ch)))"
  proof -
    have eq: "map ns_key (map (Pair cid) (get_tools ch))
        = map (ns_name cid) (map name (get_tools ch))"
      by (simp add: ns_key_def)
    have "inj_on (ns_name cid) (set (map name (get_tools ch)))"
      by (rule inj_onI) (simp add: ns_name_inj)
    with names have "distinct (map name (get_tools ch))
        \<and> inj_on (ns_name cid) (set (map name (get_tools ch)))" by (rule conjI)
    then have "distinct (map (ns_name cid) (map name (get_tools ch)))"
      by (rule distinct_map [THEN iffD2])
    then show ?thesis by (simp only: eq)
  qed
  from Cons.prems c have rest: "distinct (map ns_key (declared_pairs chs))"
    by (intro Cons.IH) auto
  have disjoint: "set (map ns_key (map (Pair cid) (get_tools ch)))
      \<inter> set (map ns_key (declared_pairs chs)) = {}"
  proof -
    have False
      if "t \<in> set (get_tools ch)" "ct \<in> set (declared_pairs chs)" "ns_key (cid, t) = ns_key ct"
      for t ct
    proof -
      from that(3) have "fst ct = cid" using ns_key_eq [of "(cid, t)" ct] by simp
      moreover from that(2) have "fst ct \<in> fst ` set chs" by (rule fst_declared_pairs)
      ultimately show False using Cons.prems(1) c by auto
    qed
    then show ?thesis by fastforce
  qed
  from own rest disjoint show ?case
    by (simp only: c declared_pairs_Cons map_append distinct_append)
qed

lemma registry_lookup:
  assumes "distinct (map fst chs)" and "build_tool_registry chs = Inr reg"
    and "(cid, ch) \<in> set chs" and "t \<in> set (get_tools ch)"
  shows "map_of (tool_registry reg) (ns_name cid (name t)) = Some (cid, name t)"
proof -
  let ?nc = "count_names (all_tools chs) []"
  let ?k = "ns_name cid (name t)"
  from assms have reg: "reg = register_pairs ?nc (declared_pairs chs) empty_registry"
    by (simp add: build_tool_registry_eq)
  from assms(3,4) have "(cid, t) \<in> set (declared_pairs chs)" by (auto simp: set_declared_pairs)
  then have "?k \<in> (\<lambda>ct. ns_name (fst ct) (name (snd ct))) ` set (declared_pairs chs)"
    by force
  then have "?k \<in> fst ` set (tool_registry reg)"
    unfolding reg tool_registry_keys by simp
  then obtain v where v: "map_of (tool_registry reg) ?k = Some v"
    by (cases "map_of (tool_registry reg) ?k") (simp_all add: map_of_eq_None_iff)
  then have "(?k, v) \<in> set (tool_registry reg)" by (rule map_of_SomeD)
  then have "(?k, v) \<in> set (tool_registry empty_registry)
     \<or> (\<exists>ct \<in> set (declared_pairs chs). ?k = ns_name (fst ct) (name (snd ct))
           \<and> v = (fst ct, name (snd ct)))"
    unfolding reg by (rule tool_registry_entries)
  then obtain c' n' where "?k = ns_name c' n'" "v = (c', n')"
    by (auto simp: empty_registry_def)
  with ns_name_inj [of cid "name t" c' n'] have "v = (cid, name t)" by simp
  with v show ?thesis by simp
qed

lemma namespaced_names:
  assumes "distinct (map fst chs)" and "build_tool_registry chs = Inr reg"
  shows "map name (namespaced_tools reg) = map ns_key (declared_pairs chs)"
proof -
  from assms have "reg = register_pairs (count_names (all_tools chs) []) (declared_pairs chs)
      empty_registry" by (simp add: build_tool_registry_eq)
  then show ?thesis
    by (simp add: namespaced_tools_register_pairs empty_registry_def ns_tool_def ns_key_def)
qed

lemma registry_keys_distinct_case:
  assumes "distinct (map fst chs)" and "build_tool_registry chs = Inr reg"
    and "distinct (map ns_key (declared_pairs chs))"
  shows "map fst (tool_registry reg) = map ns_key (declared_pairs chs)"
proof -
  let ?nc = "count_names (all_tools chs) []"
  from assms have reg: "reg = register_pairs ?nc (declared_pairs chs) empty_registry"
    by (simp add: build_tool_registry_eq)
  have ns: "(\<lambda>ct. ns_name (fst ct) (name (snd ct))) = ns_key"
    by (simp add: ns_key_def fun_eq_iff)
  from assms(3) have "distinct (map fst (tool_registry empty_registry)
      @ map (\<lambda>ct. ns_name (fst ct) (name (snd ct))) (declared_pairs chs))"
    by (simp add: empty_registry_def ns)
  from tool_registry_key_list [OF this, of ?nc] show ?thesis
    by (simp add: reg empty_registry_def ns)
qed

theorem alias_iff_globally_unique_witness:
  "distinct (map fst two_levels)
   \<and> (\<exists>reg. build_tool_registry two_levels = Inr reg
          \<and> map_of (unique_tool_registry reg) ''scan'' \<noteq> None
          \<and> map_of (unique_tool_registry reg) ''check'' = None
          \<and> occurrences ''scan'' two_levels = 1
          \<and> occurrences ''check'' two_levels = 2)"
proof -
  have h: "distinct (map fst two_levels)" by (simp add: two_levels_def)
  have o1: "occurrences ''scan'' two_levels = 1"
    by (simp add: occurrences_def all_tools_def two_levels_def example_challenge_def
        example_tool_def)
  have o2: "occurrences ''check'' two_levels = 2"
    by (simp add: occurrences_def all_tools_def two_levels_def example_challenge_def
        example_tool_def)
  from alias_iff_globally_unique [OF h] obtain reg
    where r: "build_tool_registry two_levels = Inr reg"
      and iff: "\<And>n. (map_of (unique_tool_registry reg) n \<noteq> None) = (occurrences n two_levels = 1)"
    by blast
  from iff [of "''scan''"] o1 have a1: "map_of (unique_tool_registry reg) ''scan'' \<noteq> None"
    by simp
  from o2 have "occurrences ''check'' two_levels \<noteq> 1" by simp
  with iff [of "''check''"] have a2: "map_of (unique_tool_registry reg) ''check'' = None"
    by blast
  from h r a1 a2 o1 o2 show ?thesis by blast
qed

text \<open>
  C5. For challenges with distinct ids whose tool names are distinct within each
  challenge, the build returns a registry whose namespaced names are pairwise distinct:
  the keys of the registry are these names, one for each declared tool, each resolving to
  its (challenge id, bare name) pair; the namespaced name determines the pair.
\<close>

theorem namespaced_names_distinct:
  assumes "distinct (map fst challenges)"
    and "\<forall>(cid, ch) \<in> set challenges. distinct (map name (get_tools ch))"
  shows "\<exists>reg. build_tool_registry challenges = Inr reg
     \<and> distinct (map name (namespaced_tools reg))
     \<and> map fst (tool_registry reg) = map name (namespaced_tools reg)
     \<and> length (tool_registry reg) = length (all_tools challenges)
     \<and> (\<forall>cid ch t. (cid, ch) \<in> set challenges \<and> t \<in> set (get_tools ch) \<longrightarrow>
           map_of (tool_registry reg) (ns_name cid (name t)) = Some (cid, name t))
     \<and> (\<forall>cid n cid' n'. ns_name cid n = ns_name cid' n' \<longrightarrow> cid = cid' \<and> n = n')"
proof -
  from assms(1) obtain reg where reg: "build_tool_registry challenges = Inr reg"
    by (simp add: build_tool_registry_eq)
  have d: "distinct (map ns_key (declared_pairs challenges))"
    using assms by (rule distinct_ns_keys)
  have names: "map name (namespaced_tools reg) = map ns_key (declared_pairs challenges)"
    using assms(1) reg by (rule namespaced_names)
  have keys: "map fst (tool_registry reg) = map ns_key (declared_pairs challenges)"
    using assms(1) reg d by (rule registry_keys_distinct_case)
  have "length (tool_registry reg) = length (map fst (tool_registry reg))" by simp
  also have "\<dots> = length (map snd (declared_pairs challenges))" by (simp add: keys)
  finally have len: "length (tool_registry reg) = length (all_tools challenges)"
    by (simp only: map_snd_declared_pairs)
  show ?thesis
  proof (intro exI [of _ reg] conjI allI impI)
    show "build_tool_registry challenges = Inr reg" by (rule reg)
    show "distinct (map name (namespaced_tools reg))" using d names by simp
    show "map fst (tool_registry reg) = map name (namespaced_tools reg)" using keys names by simp
    show "length (tool_registry reg) = length (all_tools challenges)" by (rule len)
  next
    fix cid ch t
    assume "(cid, ch) \<in> set challenges \<and> t \<in> set (get_tools ch)"
    then show "map_of (tool_registry reg) (ns_name cid (name t)) = Some (cid, name t)"
      using registry_lookup [OF assms(1) reg] by blast
  next
    fix cid n cid' n'
    assume "ns_name cid n = ns_name cid' n'"
    then show "cid = cid'" "n = n'" by (simp_all add: ns_name_inj)
  qed
qed

theorem namespaced_names_distinct_witness:
  "distinct (map fst two_levels)
   \<and> list_all (\<lambda>(cid, ch). distinct (map name (get_tools ch))) two_levels
   \<and> (\<exists>reg. build_tool_registry two_levels = Inr reg
          \<and> distinct (map name (namespaced_tools reg))
          \<and> map fst (tool_registry reg) = map name (namespaced_tools reg)
          \<and> length (tool_registry reg) = 4
          \<and> map_of (tool_registry reg) ''lvl2__check'' = Some (2, ''check''))"
proof -
  have h1: "distinct (map fst two_levels)" by (simp add: two_levels_def)
  have h2: "\<forall>(cid, ch) \<in> set two_levels. distinct (map name (get_tools ch))"
    by (simp add: two_levels_def example_challenge_def example_tool_def)
  have n: "length (all_tools two_levels) = 4"
    by (simp add: all_tools_def two_levels_def example_challenge_def)
  have m: "(2, example_challenge ''B:'' [''check'', ''read''] []) \<in> set two_levels
      \<and> example_tool ''check'' \<in> set (get_tools (example_challenge ''B:'' [''check'', ''read''] []))"
    by (simp add: two_levels_def example_challenge_def)
  have k: "ns_name 2 (name (example_tool ''check'')) = ''lvl2__check''"
    by (simp add: ns_name_def str_int_2 example_tool_def)
  from namespaced_names_distinct [OF h1 h2] obtain reg
    where r: "build_tool_registry two_levels = Inr reg"
      and d: "distinct (map name (namespaced_tools reg))"
      and ks: "map fst (tool_registry reg) = map name (namespaced_tools reg)"
      and len: "length (tool_registry reg) = length (all_tools two_levels)"
      and look: "\<And>cid ch t. (cid, ch) \<in> set two_levels \<and> t \<in> set (get_tools ch) \<Longrightarrow>
           map_of (tool_registry reg) (ns_name cid (name t)) = Some (cid, name t)"
    by blast
  from look [OF m] k have l: "map_of (tool_registry reg) ''lvl2__check'' = Some (2, ''check'')"
    by (simp add: example_tool_def)
  from h2 have h2': "list_all (\<lambda>(cid, ch). distinct (map name (get_tools ch))) two_levels"
    by (simp add: list_all_iff)
  from h1 h2' r d ks len n l show ?thesis by auto
qed

lemma all_tools_append: "all_tools (chs @ chs') = all_tools chs @ all_tools chs'"
  by (simp add: all_tools_def)

lemma all_tools_Cons: "all_tools ((cid, ch) # chs) = get_tools ch @ all_tools chs"
  by (simp add: all_tools_def)

lemma occurrences_ge_own:
  assumes "(cid, ch) \<in> set chs"
  shows "length (filter (\<lambda>t. name t = n) (get_tools ch)) \<le> occurrences n chs"
proof -
  from assms obtain pre post where "chs = pre @ (cid, ch) # post"
    by (auto dest: split_list)
  then show ?thesis
    by (simp add: occurrences_def all_tools_append all_tools_Cons)
qed

lemma repeated_name_not_distinct:
  assumes "1 < length (filter (\<lambda>t. name t = n) tools)"
  shows "\<not> distinct (map name tools)"
proof
  assume d: "distinct (map name tools)"
  have "length (filter (\<lambda>t. name t = n) tools) = length (filter (\<lambda>x. x = n) (map name tools))"
    by (simp add: filter_map comp_def)
  also have "\<dots> = card ({x. x = n} \<inter> set (map name tools))"
    using d by (rule distinct_length_filter)
  also have "\<dots> \<le> card {n}"
    by (intro card_mono) auto
  finally show False using assms by simp
qed

lemma ns_keys_not_distinct:
  assumes "(cid, ch) \<in> set chs" and "\<not> distinct (map name (get_tools ch))"
  shows "\<not> distinct (map ns_key (declared_pairs chs))"
proof
  assume d: "distinct (map ns_key (declared_pairs chs))"
  from assms(1) obtain pre post where "chs = pre @ (cid, ch) # post"
    by (auto dest: split_list)
  then have "declared_pairs chs
      = declared_pairs pre @ map (Pair cid) (get_tools ch) @ declared_pairs post"
    by (simp add: declared_pairs_append declared_pairs_Cons)
  with d have "distinct (map (ns_name cid) (map name (get_tools ch)))"
    by (simp add: ns_key_def comp_def)
  then have "distinct (map name (get_tools ch))"
    by (rule distinct_map [THEN iffD1, THEN conjunct1])
  with assms(2) show False by simp
qed

text \<open>
  C8, as stated, fails: for a challenge that declares \<open>check\<close> twice the build raises
  nothing and returns a registry, with one key for the two declarations, two namespaced
  tools of the same name and no alias.
\<close>

theorem duplicate_names_counterexample:
  "duplicate_level = [(1, example_challenge ''A:'' [''check'', ''check''] [])]
   \<and> map name (get_tools (example_challenge ''A:'' [''check'', ''check''] []))
       = [''check'', ''check'']
   \<and> build_tool_registry duplicate_level
       = Inr \<lparr>tool_registry = [(''lvl1__check'', 1, ''check'')],
              unique_tool_registry = [],
              namespaced_tools =
                [\<lparr>name = ''lvl1__check'', description = ''a tool'', inputSchema = ''{}''\<rparr>,
                 \<lparr>name = ''lvl1__check'', description = ''a tool'', inputSchema = ''{}''\<rparr>]\<rparr>"
  by (simp add: build_tool_registry_def gather_tools_def count_names_def register_tools_def
      register_tool_def duplicate_level_def example_challenge_def example_tool_def
      ns_name_def str_int_1 dict_get_def Let_def)

text \<open>
  C8, amended. The build never fails. When a challenge declares a bare name more than
  once, the build returns a registry in which that name has no alias, the namespaced
  name resolves to the (challenge id, bare name) pair, and the list of namespaced tools
  has one entry for each declaration, so it repeats a name.
\<close>

theorem duplicate_names_build_silently:
  assumes "distinct (map fst challenges)"
    and "(cid, ch) \<in> set challenges"
    and "1 < length (filter (\<lambda>t. name t = n) (get_tools ch))"
  shows "\<exists>reg. build_tool_registry challenges = Inr reg
     \<and> map_of (unique_tool_registry reg) n = None
     \<and> map_of (tool_registry reg) (ns_name cid n) = Some (cid, n)
     \<and> \<not> distinct (map name (namespaced_tools reg))
     \<and> length (namespaced_tools reg) = length (all_tools challenges)"
proof -
  from assms(1) obtain reg where reg: "build_tool_registry challenges = Inr reg"
    by (simp add: build_tool_registry_eq)
  from assms(2) have "length (filter (\<lambda>t. name t = n) (get_tools ch)) \<le> occurrences n challenges"
    by (rule occurrences_ge_own)
  with assms(3) have "occurrences n challenges \<noteq> 1" by simp
  with alias_present_iff [OF assms(1) reg, of n]
  have no_alias: "map_of (unique_tool_registry reg) n = None" by blast
  from assms(3) have "filter (\<lambda>t. name t = n) (get_tools ch) \<noteq> []" by auto
  then obtain t where t: "t \<in> set (get_tools ch)" "name t = n"
    by (auto simp: filter_empty_conv)
  from registry_lookup [OF assms(1) reg assms(2) t(1)] t(2)
  have lookup: "map_of (tool_registry reg) (ns_name cid n) = Some (cid, n)" by simp
  have names: "map name (namespaced_tools reg) = map ns_key (declared_pairs challenges)"
    using assms(1) reg by (rule namespaced_names)
  from assms(3) have "\<not> distinct (map name (get_tools ch))"
    by (rule repeated_name_not_distinct)
  with assms(2) have "\<not> distinct (map ns_key (declared_pairs challenges))"
    by (rule ns_keys_not_distinct)
  with names have nd: "\<not> distinct (map name (namespaced_tools reg))" by simp
  have "length (namespaced_tools reg) = length (map name (namespaced_tools reg))" by simp
  also have "\<dots> = length (map snd (declared_pairs challenges))" by (simp add: names)
  finally have len: "length (namespaced_tools reg) = length (all_tools challenges)"
    by (simp only: map_snd_declared_pairs)
  from reg no_alias lookup nd len show ?thesis by blast
qed

theorem duplicate_names_build_silently_witness:
  "distinct (map fst duplicate_level)
   \<and> (1, example_challenge ''A:'' [''check'', ''check''] []) \<in> set duplicate_level
   \<and> 1 < length (filter (\<lambda>t. name t = ''check'')
                  (get_tools (example_challenge ''A:'' [''check'', ''check''] [])))
   \<and> (\<exists>reg. build_tool_registry duplicate_level = Inr reg
          \<and> map_of (unique_tool_registry reg) ''check'' = None
          \<and> map_of (tool_registry reg) (ns_name 1 ''check'') = Some (1, ''check'')
          \<and> \<not> distinct (map name (namespaced_tools reg))
          \<and> length (namespaced_tools reg) = length (all_tools duplicate_level))"
proof -
  have h1: "distinct (map fst duplicate_level)" by (simp add: duplicate_level_def)
  have h2: "(1, example_challenge ''A:'' [''check'', ''check''] []) \<in> set duplicate_level"
    by (simp add: duplicate_level_def)
  have h3: "1 < length (filter (\<lambda>t. name t = ''check'')
                  (get_tools (example_challenge ''A:'' [''check'', ''check''] [])))"
    by (simp add: example_challenge_def example_tool_def)
  from h1 h2 h3 duplicate_names_build_silently [OF h1 h2 h3] show ?thesis by simp
qed

section \<open>Properties of the resource owner map\<close>

lemma declare_pairs_Nil [simp]: "declare_pairs parse [] m = m"
  by (simp add: declare_pairs_def)

lemma declare_pairs_Cons [simp]:
  "declare_pairs parse ((cid, r) # xs) m = declare_pairs parse xs (declare_resource parse cid r m)"
  by (simp add: declare_pairs_def)

lemma declare_pairs_append:
  "declare_pairs parse (xs @ ys) m = declare_pairs parse ys (declare_pairs parse xs m)"
  by (simp add: declare_pairs_def)

lemma declare_pairs_map_Pair:
  "fold (declare_resource parse cid) rs m = declare_pairs parse (map (Pair cid) rs) m"
  by (induction rs arbitrary: m) simp_all

lemma owner_fold_flat:
  "fold (\<lambda>(cid, challenge) resource_owner.
           fold (declare_resource parse cid) (get_resources challenge) resource_owner) chs m
     = declare_pairs parse (resource_pairs chs) m"
proof (induction chs arbitrary: m)
  case Nil
  show ?case by (simp add: resource_pairs_def)
next
  case (Cons a chs)
  obtain cid ch where a: "a = (cid, ch)" by (cases a)
  let ?step = "\<lambda>(cid, challenge) resource_owner.
           fold (declare_resource parse cid) (get_resources challenge) resource_owner"
  have "fold ?step (a # chs) m
      = fold ?step chs (fold (declare_resource parse cid) (get_resources ch) m)"
    by (simp add: a)
  also have "\<dots> = declare_pairs parse (resource_pairs chs)
                    (fold (declare_resource parse cid) (get_resources ch) m)"
    by (rule Cons.IH)
  also have "\<dots> = declare_pairs parse (resource_pairs (a # chs)) m"
    by (simp add: a resource_pairs_def declare_pairs_append declare_pairs_map_Pair)
  finally show ?case .
qed

lemma build_resource_owner_map_eq:
  "build_resource_owner_map parse chs
     = AList.update (''vulnmcp'', ''docs'') (Some 2) (declare_pairs parse (resource_pairs chs) [])"
  by (simp add: build_resource_owner_map_def owner_fold_flat)

lemma set_resource_pairs:
  "set (resource_pairs chs) = {(cid, r). \<exists>ch. (cid, ch) \<in> set chs \<and> r \<in> set (get_resources ch)}"
  by (auto simp: resource_pairs_def)

lemma map_of_declare_resource:
  "map_of (declare_resource parse cid r m) k =
     (if parse (uri r) = k
      then (if map_of m k \<noteq> None \<and> map_of m k \<noteq> Some (Some cid) then Some None
            else Some (Some cid))
      else map_of m k)"
  by (simp add: declare_resource_def Let_def AList.update_conv')

lemma ambiguous_stays:
  "map_of m k = Some None \<Longrightarrow> map_of (declare_pairs parse xs m) k = Some None"
proof (induction xs arbitrary: m)
  case Nil
  then show ?case by simp
next
  case (Cons a xs)
  obtain cid r where a: "a = (cid, r)" by (cases a)
  from Cons.prems have "map_of (declare_resource parse cid r m) k = Some None"
    by (simp add: map_of_declare_resource)
  then show ?case unfolding a declare_pairs_Cons by (rule Cons.IH)
qed

lemma owned_then_other:
  assumes "map_of m k = Some (Some c)"
    and "(c', r') \<in> set xs" and "parse (uri r') = k" and "c' \<noteq> c"
  shows "map_of (declare_pairs parse xs m) k = Some None"
  using assms
proof (induction xs arbitrary: m)
  case Nil
  then show ?case by simp
next
  case (Cons a xs)
  obtain cid r where a: "a = (cid, r)" by (cases a)
  let ?m = "declare_resource parse cid r m"
  show ?case
  proof (cases "parse (uri r) = k \<and> cid \<noteq> c")
    case True
    with Cons.prems(1) have "map_of ?m k = Some None" by (simp add: map_of_declare_resource)
    then show ?thesis unfolding a declare_pairs_Cons by (rule ambiguous_stays)
  next
    case False
    with Cons.prems(1) have m: "map_of ?m k = Some (Some c)"
      by (auto simp: map_of_declare_resource)
    from False Cons.prems(2,3,4) a have "(c', r') \<in> set xs" by auto
    with m Cons.prems(3,4) show ?thesis unfolding a declare_pairs_Cons by (intro Cons.IH)
  qed
qed

lemma two_declarers:
  assumes "map_of m k = None"
    and "(c1, r1) \<in> set xs" and "parse (uri r1) = k"
    and "(c2, r2) \<in> set xs" and "parse (uri r2) = k" and "c1 \<noteq> c2"
  shows "map_of (declare_pairs parse xs m) k = Some None"
  using assms
proof (induction xs arbitrary: m)
  case Nil
  then show ?case by simp
next
  case (Cons a xs)
  obtain cid r where a: "a = (cid, r)" by (cases a)
  let ?m = "declare_resource parse cid r m"
  show ?case
  proof (cases "parse (uri r) = k")
    case False
    with Cons.prems(1) have m: "map_of ?m k = None" by (simp add: map_of_declare_resource)
    from False Cons.prems a have "(c1, r1) \<in> set xs" "(c2, r2) \<in> set xs" by auto
    with m Cons.prems show ?thesis unfolding a declare_pairs_Cons by (intro Cons.IH)
  next
    case True
    with Cons.prems(1) have m: "map_of ?m k = Some (Some cid)"
      by (simp add: map_of_declare_resource)
    show ?thesis
    proof (cases "c1 = cid")
      case True
      with Cons.prems a have "(c2, r2) \<in> set xs" "c2 \<noteq> cid" by auto
      with m Cons.prems(5) show ?thesis unfolding a declare_pairs_Cons
        by (intro owned_then_other)
    next
      case False
      with Cons.prems a have "(c1, r1) \<in> set xs" by auto
      with m Cons.prems(3) False show ?thesis unfolding a declare_pairs_Cons
        by (intro owned_then_other)
    qed
  qed
qed

lemma shared_key_is_ambiguous:
  assumes "(c1, ch1) \<in> set chs" and "(c2, ch2) \<in> set chs" and "c1 \<noteq> c2"
    and "r1 \<in> set (get_resources ch1)" and "r2 \<in> set (get_resources ch2)"
    and "parse (uri r1) = key" and "parse (uri r2) = key"
    and "key \<noteq> (''vulnmcp'', ''docs'')"
  shows "map_of (build_resource_owner_map parse chs) key = Some None"
proof -
  from assms have "(c1, r1) \<in> set (resource_pairs chs)" "(c2, r2) \<in> set (resource_pairs chs)"
    by (auto simp: set_resource_pairs)
  with assms have "map_of (declare_pairs parse (resource_pairs chs) []) key = Some None"
    by (intro two_declarers [where ?c1.0 = c1 and ?c2.0 = c2 and ?r1.0 = r1 and ?r2.0 = r2])
       simp_all
  with assms(8) show ?thesis
    by (simp add: build_resource_owner_map_eq AList.update_conv')
qed

lemma docs_owner: "map_of (build_resource_owner_map parse chs) (''vulnmcp'', ''docs'') = Some (Some 2)"
  by (simp add: build_resource_owner_map_eq AList.update_conv')

lemma find_first:
  "chs = pre @ c # post \<Longrightarrow> \<forall>x \<in> set pre. \<not> P x \<Longrightarrow> P c \<Longrightarrow> find P chs = Some c"
  by (induction pre arbitrary: chs) auto

lemma read_resource_exact:
  assumes "challenges = pre @ (cid, ch) # post"
    and "\<forall>c \<in> set pre. \<not> declares a c" and "declares a (cid, ch)"
    and "a \<noteq> ''vulnmcp://welcome''"
  shows "read_resource parse challenges resource_owner a
     = (case handle_resource_read ch a of Inr content \<Rightarrow> content | Inl m \<Rightarrow> error_reading m)"
proof -
  from assms(1,2,3) have "find (declares a) challenges = Some (cid, ch)" by (rule find_first)
  with assms(4) show ?thesis by (simp add: read_resource_def)
qed

lemma read_resource_ambiguous:
  assumes "map_of resource_owner (parse a) = Some None"
    and "\<forall>c \<in> set challenges. \<not> declares a c"
    and "a \<noteq> ''vulnmcp://welcome''"
  shows "read_resource parse challenges resource_owner a = not_found a"
proof -
  from assms(2) have "find (declares a) challenges = None" by (simp add: find_None_iff)
  with assms(1,3) show ?thesis by (simp add: read_resource_def dict_get_def)
qed

text \<open>
  C4, amended. Two different challenges declare resources under the same (scheme,
  netloc) key, which is not (vulnmcp, docs): the owner map holds \<open>None\<close> (ambiguous)
  for the key. The key (vulnmcp, docs) is always owned by challenge 2. A read of an
  address other than the welcome address goes to the first challenge in registration
  order that declares the address, and the reply is what its handler returns (or the
  error text when the handler raises); a read of an address under the ambiguous key
  that no challenge declares returns the not-found text.
\<close>

theorem shared_key_resolution:
  assumes "(c1, ch1) \<in> set challenges" and "(c2, ch2) \<in> set challenges" and "c1 \<noteq> c2"
    and "r1 \<in> set (get_resources ch1)" and "r2 \<in> set (get_resources ch2)"
    and "parse (uri r1) = key" and "parse (uri r2) = key"
    and "key \<noteq> (''vulnmcp'', ''docs'')"
  shows "map_of (build_resource_owner_map parse challenges) key = Some None
     \<and> map_of (build_resource_owner_map parse challenges) (''vulnmcp'', ''docs'') = Some (Some 2)
     \<and> (\<forall>pre cid ch post a.
            challenges = pre @ (cid, ch) # post \<and> (\<forall>c \<in> set pre. \<not> declares a c)
              \<and> declares a (cid, ch) \<and> a \<noteq> ''vulnmcp://welcome''
            \<longrightarrow> read_resource parse challenges (build_resource_owner_map parse challenges) a
                  = (case handle_resource_read ch a of
                       Inr content \<Rightarrow> content
                     | Inl m \<Rightarrow> error_reading m))
     \<and> (\<forall>a. parse a = key \<and> (\<forall>c \<in> set challenges. \<not> declares a c)
              \<and> a \<noteq> ''vulnmcp://welcome''
            \<longrightarrow> read_resource parse challenges (build_resource_owner_map parse challenges) a
                  = not_found a)"
proof (intro conjI allI impI)
  show amb: "map_of (build_resource_owner_map parse challenges) key = Some None"
    using assms by (rule shared_key_is_ambiguous)
  show "map_of (build_resource_owner_map parse challenges) (''vulnmcp'', ''docs'') = Some (Some 2)"
    by (rule docs_owner)
  show "read_resource parse challenges (build_resource_owner_map parse challenges) a
      = (case handle_resource_read ch a of Inr content \<Rightarrow> content | Inl m \<Rightarrow> error_reading m)"
    if "challenges = pre @ (cid, ch) # post \<and> (\<forall>c \<in> set pre. \<not> declares a c)
              \<and> declares a (cid, ch) \<and> a \<noteq> ''vulnmcp://welcome''"
    for pre cid ch post a
    using that by (intro read_resource_exact [where pre = pre and post = post and cid = cid]) simp_all
  show "read_resource parse challenges (build_resource_owner_map parse challenges) a = not_found a"
    if "parse a = key \<and> (\<forall>c \<in> set challenges. \<not> declares a c) \<and> a \<noteq> ''vulnmcp://welcome''"
    for a
    using that amb by (intro read_resource_ambiguous) simp_all
qed

lemma uri_key_files:
  "uri_key ''vulnmcp://files/a'' = (''vulnmcp'', ''files'')"
  "uri_key ''vulnmcp://files/b'' = (''vulnmcp'', ''files'')"
  "uri_key ''vulnmcp://files/zzz'' = (''vulnmcp'', ''files'')"
  by (simp_all add: uri_key_def)

lemma uri_key_docs:
  "uri_key ''vulnmcp://docs/public/welcome'' = (''vulnmcp'', ''docs'')"
  "uri_key ''vulnmcp://docs/other'' = (''vulnmcp'', ''docs'')"
  "uri_key ''vulnmcp://docs/zzz'' = (''vulnmcp'', ''docs'')"
  by (simp_all add: uri_key_def)

text \<open>
  C4, as stated, fails for the key (vulnmcp, docs): challenges 2 and 8 both declare a
  resource under it, the owner map gives challenge 2 for it, and a read of an address
  under it that nobody declares is answered by challenge 2.
\<close>

theorem shared_key_resolution_counterexample:
  "docs_levels =
     [(2, example_challenge ''A:'' [] [''vulnmcp://docs/public/welcome'']),
      (8, example_challenge ''B:'' [] [''vulnmcp://docs/other''])]
   \<and> uri_key ''vulnmcp://docs/public/welcome'' = (''vulnmcp'', ''docs'')
   \<and> uri_key ''vulnmcp://docs/other'' = (''vulnmcp'', ''docs'')
   \<and> uri_key ''vulnmcp://docs/zzz'' = (''vulnmcp'', ''docs'')
   \<and> map_of (build_resource_owner_map uri_key docs_levels) (''vulnmcp'', ''docs'') = Some (Some 2)
   \<and> read_resource uri_key docs_levels (build_resource_owner_map uri_key docs_levels)
         ''vulnmcp://docs/zzz'' = ''A:vulnmcp://docs/zzz''
   \<and> read_resource uri_key docs_levels (build_resource_owner_map uri_key docs_levels)
         ''vulnmcp://docs/zzz'' \<noteq> not_found ''vulnmcp://docs/zzz''"
proof -
  have f: "find (declares ''vulnmcp://docs/zzz'') docs_levels = None"
    by (simp add: docs_levels_def declares_def example_challenge_def example_resource_def)
  have m: "map_of docs_levels 2 = Some (example_challenge ''A:'' [] [''vulnmcp://docs/public/welcome''])"
    by (simp add: docs_levels_def)
  have r: "read_resource uri_key docs_levels (build_resource_owner_map uri_key docs_levels)
         ''vulnmcp://docs/zzz'' = ''A:vulnmcp://docs/zzz''"
    by (simp add: read_resource_def f uri_key_docs dict_get_def docs_owner m)
       (simp add: example_challenge_def)
  show ?thesis
    by (simp add: r uri_key_docs docs_owner) (simp add: docs_levels_def not_found_def cross_mark_def)
qed

theorem shared_key_resolution_witness:
  "(3, example_challenge ''A:'' [] [''vulnmcp://files/a'']) \<in> set shared_levels
   \<and> (5, example_challenge ''B:'' [] [''vulnmcp://files/b'']) \<in> set shared_levels
   \<and> (3::int) \<noteq> 5
   \<and> example_resource ''vulnmcp://files/a''
        \<in> set (get_resources (example_challenge ''A:'' [] [''vulnmcp://files/a'']))
   \<and> example_resource ''vulnmcp://files/b''
        \<in> set (get_resources (example_challenge ''B:'' [] [''vulnmcp://files/b'']))
   \<and> uri_key (uri (example_resource ''vulnmcp://files/a'')) = (''vulnmcp'', ''files'')
   \<and> uri_key (uri (example_resource ''vulnmcp://files/b'')) = (''vulnmcp'', ''files'')
   \<and> (''vulnmcp'', ''files'') \<noteq> (''vulnmcp'', ''docs'')
   \<and> map_of (build_resource_owner_map uri_key shared_levels) (''vulnmcp'', ''files'') = Some None
   \<and> read_resource uri_key shared_levels (build_resource_owner_map uri_key shared_levels)
         ''vulnmcp://files/b'' = ''B:vulnmcp://files/b''
   \<and> read_resource uri_key shared_levels (build_resource_owner_map uri_key shared_levels)
         ''vulnmcp://files/zzz'' = not_found ''vulnmcp://files/zzz''"
proof -
  let ?A = "example_challenge ''A:'' [] [''vulnmcp://files/a'']"
  let ?B = "example_challenge ''B:'' [] [''vulnmcp://files/b'']"
  have h1: "(3, ?A) \<in> set shared_levels" by (simp add: shared_levels_def)
  have h2: "(5, ?B) \<in> set shared_levels" by (simp add: shared_levels_def)
  have h3: "(3::int) \<noteq> 5" by simp
  have h4: "example_resource ''vulnmcp://files/a'' \<in> set (get_resources ?A)"
    by (simp add: example_challenge_def)
  have h5: "example_resource ''vulnmcp://files/b'' \<in> set (get_resources ?B)"
    by (simp add: example_challenge_def)
  have h6: "uri_key (uri (example_resource ''vulnmcp://files/a'')) = (''vulnmcp'', ''files'')"
    by (simp add: example_resource_def uri_key_files)
  have h7: "uri_key (uri (example_resource ''vulnmcp://files/b'')) = (''vulnmcp'', ''files'')"
    by (simp add: example_resource_def uri_key_files)
  have h8: "(''vulnmcp'', ''files'') \<noteq> (''vulnmcp'', ''docs'')" by simp
  note t = shared_key_resolution [OF h1 h2 h3 h4 h5 h6 h7 h8]
  from t have amb: "map_of (build_resource_owner_map uri_key shared_levels) (''vulnmcp'', ''files'')
      = Some None" by (rule conjunct1)
  have exact_pre: "shared_levels = [(3, ?A)] @ (5, ?B) # []
      \<and> (\<forall>c \<in> set [(3, ?A)]. \<not> declares ''vulnmcp://files/b'' c)
      \<and> declares ''vulnmcp://files/b'' (5, ?B)
      \<and> ''vulnmcp://files/b'' \<noteq> ''vulnmcp://welcome''"
    by (simp add: shared_levels_def declares_def example_challenge_def example_resource_def)
  from t have "\<forall>pre cid ch post a.
            shared_levels = pre @ (cid, ch) # post \<and> (\<forall>c \<in> set pre. \<not> declares a c)
              \<and> declares a (cid, ch) \<and> a \<noteq> ''vulnmcp://welcome''
            \<longrightarrow> read_resource uri_key shared_levels
                  (build_resource_owner_map uri_key shared_levels) a
                  = (case handle_resource_read ch a of
                       Inr content \<Rightarrow> content
                     | Inl m \<Rightarrow> error_reading m)"
    by (rule conjunct2 [THEN conjunct2, THEN conjunct1])
  from this [rule_format, OF exact_pre]
  have exact: "read_resource uri_key shared_levels (build_resource_owner_map uri_key shared_levels)
         ''vulnmcp://files/b'' = ''B:vulnmcp://files/b''"
    by (simp add: example_challenge_def)
  have none_pre: "uri_key ''vulnmcp://files/zzz'' = (''vulnmcp'', ''files'')
      \<and> (\<forall>c \<in> set shared_levels. \<not> declares ''vulnmcp://files/zzz'' c)
      \<and> ''vulnmcp://files/zzz'' \<noteq> ''vulnmcp://welcome''"
    by (simp add: uri_key_files shared_levels_def declares_def example_challenge_def
        example_resource_def)
  from t have "\<forall>a. uri_key a = (''vulnmcp'', ''files'')
              \<and> (\<forall>c \<in> set shared_levels. \<not> declares a c)
              \<and> a \<noteq> ''vulnmcp://welcome''
            \<longrightarrow> read_resource uri_key shared_levels
                  (build_resource_owner_map uri_key shared_levels) a = not_found a"
    by (rule conjunct2 [THEN conjunct2, THEN conjunct2])
  from this [rule_format, OF none_pre]
  have none: "read_resource uri_key shared_levels (build_resource_owner_map uri_key shared_levels)
         ''vulnmcp://files/zzz'' = not_found ''vulnmcp://files/zzz''" .
  from h1 h2 h3 h4 h5 h6 h7 h8 amb exact none show ?thesis by (intro conjI)
qed


section \<open>Properties of the hints\<close>

lemma py_index_last: "xs \<noteq> [] \<Longrightarrow> py_index xs (- 1) = Inr (last xs)"
proof -
  assume ne: "xs \<noteq> []"
  then have pos: "0 < length xs" by simp
  then have "nat (- 1 + int (length xs)) = length xs - 1" by simp
  moreover from pos have "- int (length xs) \<le> - 1" by arith
  ultimately show ?thesis
    using ne by (simp add: py_index_def last_conv_nth)
qed

lemma get_hint_zero:
  "hints (info ch) \<noteq> [] \<Longrightarrow>
   get_hint ch 0 = (ch\<lparr>self_hints_used := self_hints_used ch + 1\<rparr>,
                    Inr (Some (last (hints (info ch)))))"
  by (simp add: get_hint_def Let_def py_index_last)

lemma get_hint_None_iff:
  "(snd (get_hint ch lvl) = Inr None) = (int (length (hints (info ch))) < lvl)"
  by (auto simp: get_hint_def Let_def split: sum.splits)

lemma use_hint_returns:
  "fs u \<noteq> Some Corrupt \<Longrightarrow> \<exists>fs' s. use_hint now fs u cid lvl = (fs', Inr s)"
proof (cases "fs u")
  case None
  then show ?thesis by (simp add: use_hint_def load_progress_None Let_def)
next
  case (Some f)
  assume "fs u \<noteq> Some Corrupt"
  with Some obtain p where "fs u = Some (Stored p)" by (cases f) auto
  then show ?thesis by (simp add: use_hint_def load_progress_Stored Let_def)
qed

lemma hint_reply_not_invalid:
  "text_reply (light_bulb @ s) \<noteq> invalid_hint_level lvl"
  by (simp add: text_reply_def invalid_hint_level_def light_bulb_def cross_mark_def)

lemma server_get_hint_invalid_iff:
  assumes "map_of chs cid = Some ch"
  shows "(snd (server_get_hint now chs fs cid lvl) = Inr (invalid_hint_level lvl))
       = (int (length (hints (info ch))) < lvl)"
proof (cases "int (length (hints (info ch))) < lvl")
  case True
  then have "get_hint ch lvl = (ch, Inr None)" by (simp add: get_hint_def)
  with assms True show ?thesis by (simp add: server_get_hint_def)
next
  case False
  obtain ch1 got where g: "get_hint ch lvl = (ch1, got)" by (cases "get_hint ch lvl")
  with False have "got \<noteq> Inr None" using get_hint_None_iff [of ch lvl] by simp
  then consider e where "got = Inl e" | h where "got = Inr (Some h)"
    by (cases got) auto
  then have "snd (server_get_hint now chs fs cid lvl) \<noteq> Inr (invalid_hint_level lvl)"
  proof cases
    case 1
    with assms g show ?thesis by (simp add: server_get_hint_def)
  next
    case 2
    obtain fs1 r where u: "use_hint now fs ''player'' cid lvl = (fs1, r)"
      by (cases "use_hint now fs ''player'' cid lvl")
    show ?thesis
    proof (cases r)
      case (Inl e)
      with assms g 2 u show ?thesis by (simp add: server_get_hint_def)
    next
      case (Inr s)
      with assms g 2 u show ?thesis
        by (simp add: server_get_hint_def hint_reply_not_invalid)
    qed
  qed
  with False show ?thesis by simp
qed

lemma server_get_hint_zero:
  assumes "map_of chs cid = Some ch" and "hints (info ch) \<noteq> []"
    and "fs ''player'' \<noteq> Some Corrupt"
  shows "\<exists>fs'. server_get_hint now chs fs cid 0 =
     ((AList.update cid (ch\<lparr>self_hints_used := self_hints_used ch + 1\<rparr>) chs, fs'),
      Inr (text_reply (light_bulb @ '' HINT L'' @ str_int cid @ ''.'' @ str_int 0
             @ [CHR 0x0A, CHR 0x0A] @ hint_text (last (hints (info ch))))))"
proof -
  from assms(3) obtain fs' s where "use_hint now fs ''player'' cid 0 = (fs', Inr s)"
    using use_hint_returns by blast
  with assms(1,2) show ?thesis
    by (simp add: server_get_hint_def get_hint_zero)
qed

text \<open>
  C10. For a challenge with at least one hint, \<open>get_hint(0)\<close> counts a used hint and
  returns the last hint of the list (index -1), and the server does not report level 0
  as invalid: with a readable progress file for the player it replies with that hint.
  \<open>get_hint\<close> returns \<open>None\<close>, and the server reports an invalid level, exactly when
  the level exceeds the number of hints.
\<close>

theorem hint_level_zero_is_last_hint:
  assumes "hints (info ch) \<noteq> []"
  shows "get_hint ch 0 = (ch\<lparr>self_hints_used := self_hints_used ch + 1\<rparr>,
                         Inr (Some (last (hints (info ch)))))
     \<and> py_index (hints (info ch)) (0 - 1) = Inr (last (hints (info ch)))
     \<and> (\<forall>lvl. (snd (get_hint ch lvl) = Inr None) = (int (length (hints (info ch))) < lvl))
     \<and> (\<forall>now chs fs cid lvl. map_of chs cid = Some ch \<longrightarrow>
           (snd (server_get_hint now chs fs cid lvl) = Inr (invalid_hint_level lvl))
             = (int (length (hints (info ch))) < lvl))
     \<and> (\<forall>now chs fs cid. map_of chs cid = Some ch \<longrightarrow>
           snd (server_get_hint now chs fs cid 0) \<noteq> Inr (invalid_hint_level 0))
     \<and> (\<forall>now chs fs cid. map_of chs cid = Some ch \<and> fs ''player'' \<noteq> Some Corrupt \<longrightarrow>
           (\<exists>fs'. server_get_hint now chs fs cid 0 =
              ((AList.update cid (ch\<lparr>self_hints_used := self_hints_used ch + 1\<rparr>) chs, fs'),
               Inr (text_reply (light_bulb @ '' HINT L'' @ str_int cid @ ''.'' @ str_int 0
                      @ [CHR 0x0A, CHR 0x0A] @ hint_text (last (hints (info ch))))))))"
proof (intro conjI allI impI)
  show "get_hint ch 0 = (ch\<lparr>self_hints_used := self_hints_used ch + 1\<rparr>,
                         Inr (Some (last (hints (info ch)))))"
    using assms by (rule get_hint_zero)
  show "py_index (hints (info ch)) (0 - 1) = Inr (last (hints (info ch)))"
    using assms by (simp add: py_index_last)
  show "(snd (get_hint ch lvl) = Inr None) = (int (length (hints (info ch))) < lvl)" for lvl
    by (rule get_hint_None_iff)
  show "(snd (server_get_hint now chs fs cid lvl) = Inr (invalid_hint_level lvl))
             = (int (length (hints (info ch))) < lvl)"
    if "map_of chs cid = Some ch" for now chs fs cid lvl
    using that by (rule server_get_hint_invalid_iff)
  show "snd (server_get_hint now chs fs cid 0) \<noteq> Inr (invalid_hint_level 0)"
    if "map_of chs cid = Some ch" for now chs fs cid
    using server_get_hint_invalid_iff [OF that, of now fs 0] by simp
  show "\<exists>fs'. server_get_hint now chs fs cid 0 =
              ((AList.update cid (ch\<lparr>self_hints_used := self_hints_used ch + 1\<rparr>) chs, fs'),
               Inr (text_reply (light_bulb @ '' HINT L'' @ str_int cid @ ''.'' @ str_int 0
                      @ [CHR 0x0A, CHR 0x0A] @ hint_text (last (hints (info ch))))))"
    if "map_of chs cid = Some ch \<and> fs ''player'' \<noteq> Some Corrupt" for now chs fs cid
    using that assms by (intro server_get_hint_zero) simp_all
qed

theorem hint_level_zero_is_last_hint_witness:
  "hints (info hinted_challenge) \<noteq> []
   \<and> get_hint hinted_challenge 0
       = (hinted_challenge\<lparr>self_hints_used := 1\<rparr>,
          Inr (Some \<lparr>level = 2, hint_text = ''read the source'', points_cost = 20\<rparr>))
   \<and> snd (get_hint hinted_challenge 2)
       = Inr (Some \<lparr>level = 2, hint_text = ''read the source'', points_cost = 20\<rparr>)
   \<and> snd (get_hint hinted_challenge 3) = Inr None
   \<and> snd (server_get_hint ''t'' [(1, hinted_challenge)] Map.empty 1 0)
       \<noteq> Inr (invalid_hint_level 0)
   \<and> snd (server_get_hint ''t'' [(1, hinted_challenge)] Map.empty 1 3)
       = Inr (invalid_hint_level 3)"
proof -
  have h: "hints (info hinted_challenge) \<noteq> []"
    by (simp add: hinted_challenge_def example_info_def)
  have l: "last (hints (info hinted_challenge))
      = \<lparr>level = 2, hint_text = ''read the source'', points_cost = 20\<rparr>"
    by (simp add: hinted_challenge_def example_info_def)
  have n: "int (length (hints (info hinted_challenge))) = 2"
    by (simp add: hinted_challenge_def example_info_def)
  have u: "self_hints_used hinted_challenge + 1 = 1"
    by (simp add: hinted_challenge_def example_challenge_def)
  have m: "map_of [(1::int, hinted_challenge)] 1 = Some hinted_challenge" by simp
  have g2: "snd (get_hint hinted_challenge 2)
       = Inr (Some \<lparr>level = 2, hint_text = ''read the source'', points_cost = 20\<rparr>)"
    by (simp add: get_hint_def py_index_def hinted_challenge_def example_info_def)
  note t = hint_level_zero_is_last_hint [OF h]
  from t have c1: "get_hint hinted_challenge 0
       = (hinted_challenge\<lparr>self_hints_used := 1\<rparr>,
          Inr (Some \<lparr>level = 2, hint_text = ''read the source'', points_cost = 20\<rparr>))"
    by (simp add: l u)
  from t have "(snd (get_hint hinted_challenge 3) = Inr None)
      = (int (length (hints (info hinted_challenge))) < 3)" by blast
  then have c2: "snd (get_hint hinted_challenge 3) = Inr None" by (simp add: n)
  from t m have c3: "snd (server_get_hint ''t'' [(1, hinted_challenge)] Map.empty 1 0)
       \<noteq> Inr (invalid_hint_level 0)" by blast
  from t m have "(snd (server_get_hint ''t'' [(1, hinted_challenge)] Map.empty 1 3)
       = Inr (invalid_hint_level 3)) = (int (length (hints (info hinted_challenge))) < 3)"
    by blast
  then have c4: "snd (server_get_hint ''t'' [(1, hinted_challenge)] Map.empty 1 3)
       = Inr (invalid_hint_level 3)" by (simp add: n)
  from h c1 g2 c2 c3 c4 show ?thesis by (intro conjI)
qed


end
